theory Spec2Isabelle
  imports Complex_Main "HOL-Library.Word" "HOL-Library.Signed_Division" "HOL-Library.Sublist"
begin

unbundle bit_operations_syntax

section \<open>Go values\<close>

text \<open>
  The client is Go code built for a 64-bit platform: \<open>int\<close> is a 64-bit two's complement
  integer whose arithmetic wraps around, \<open>uint8\<close> and \<open>uint16\<close> are 8 and 16 bits wide.
  Comparisons of \<open>int\<close> values are the signed ones (\<open><s\<close>, \<open>\<le>s\<close>).
\<close>

type_synonym go_int = "64 word"
type_synonym uint8 = "8 word"
type_synonym uint16 = "16 word"

text \<open>Go's \<open>/\<close> on \<open>int\<close> truncates towards zero.\<close>

definition go_div :: "go_int \<Rightarrow> go_int \<Rightarrow> go_int" where
  "go_div a b = word_of_int (sint a sdiv sint b)"

text \<open>
  \<open>1 << n\<close> for an \<open>int\<close> shift count \<open>n \<ge> 0\<close>: bits shifted beyond the width are lost,
  so the result is 0 from \<open>n = 64\<close> on. (A negative count panics; the caller checks it.)
\<close>

definition shl1 :: "go_int \<Rightarrow> go_int" where
  "shl1 n = push_bit (nat (sint n)) 1"

subsection \<open>Errors\<close>

text \<open>
  \<open>New m\<close> is \<open>errors.New(m)\<close>, \<open>Errorf m\<close> a \<open>fmt.Errorf\<close> without \<open>%w\<close> whose text is \<open>m\<close>,
  \<open>Wrap p e s\<close> a \<open>fmt.Errorf\<close> that wraps \<open>e\<close> with \<open>%w\<close> between the texts \<open>p\<close> and \<open>s\<close>,
  \<open>External m\<close> an error value made by the standard library (net/http, io,
  encoding/json), and \<open>Panic m\<close> a run-time panic.
\<close>

datatype error =
    New string
  | Errorf string
  | Wrap string error string
  | External string
  | Panic string

definition ErrInvalidRange :: error where
  "ErrInvalidRange = New ''min cannot be greater than max''"

definition ErrRangeTooLarge :: error where
  "ErrRangeTooLarge = New ''range size exceeds maximum supported value''"

definition ErrMissingAPIKey :: error where
  "ErrMissingAPIKey = New ''API key required for this endpoint''"

definition ErrInvalidHexType :: error where
  "ErrInvalidHexType = New ''invalid hex type, must be hex8 or hex16''"

definition ErrInvalidBlockSize :: error where
  "ErrInvalidBlockSize = New ''block size must be between 1-10''"

subsection \<open>Constants\<close>

definition maxUint8Length :: go_int where
  "maxUint8Length = 1024"

definition maxUint16Length :: go_int where
  "maxUint16Length = 1024"

definition maxBits :: go_int where
  "maxBits = maxUint8Length * 8"

subsection \<open>Number formatting\<close>

definition digit_char :: "nat \<Rightarrow> char" where
  "digit_char d = ''0123456789abcdef'' ! d"

text \<open>The digits of a natural number in base 10 or 16, most significant first.\<close>

fun digits_of :: "nat \<Rightarrow> nat \<Rightarrow> string" where
  "digits_of base n =
     (if base < 2 \<or> n < base then [digit_char n]
      else digits_of base (n div base) @ [digit_char (n mod base)])"

text \<open>\<open>strconv.Itoa\<close>, which is also what the verb \<open>%d\<close> prints for an \<open>int\<close>.\<close>

declare digits_of.simps [simp del]

definition Itoa :: "go_int \<Rightarrow> string" where
  "Itoa i =
     (if i <s 0 then CHR ''-'' # digits_of 10 (nat (- sint i))
      else digits_of 10 (nat (sint i)))"

definition zero_pad :: "nat \<Rightarrow> string \<Rightarrow> string" where
  "zero_pad n s = replicate (n - length s) CHR ''0'' @ s"

text \<open>
  \<open>fmt.Sprintf("%0<width>x", v)\<close> for an \<open>int\<close> \<open>v\<close> and a width of at least 1: the
  lowercase hexadecimal digits of the magnitude, padded on the left with zeros up to
  the width; a negative value has a leading minus sign, which counts towards the
  width. The width is a minimum: a value with more digits is printed in full.
\<close>

definition Sprintf_0x :: "nat \<Rightarrow> go_int \<Rightarrow> string" where
  "Sprintf_0x width v =
     (if v <s 0 then CHR ''-'' # zero_pad (width - 1) (digits_of 16 (nat (- sint v)))
      else zero_pad width (digits_of 16 (nat (sint v))))"

section \<open>The client and the upstream service\<close>

record QRNGClient =
  APIEndpoint :: string
  APIKey :: string
  useAPIKey :: bool

text \<open>
  The field \<open>HTTPClient\<close> of the Go struct is the transport the requests are handed to;
  it is the \<open>serve\<close> component of the world below.
\<close>

definition NewClient :: QRNGClient where
  "NewClient =
     \<lparr>APIEndpoint = ''https://qrng.anu.edu.au/API/jsonI.php'', APIKey = [], useAPIKey = False\<rparr>"

definition NewClientWithAPIKey :: "string \<Rightarrow> QRNGClient" where
  "NewClientWithAPIKey apiKey =
     \<lparr>APIEndpoint = ''https://api.quantumnumbers.anu.edu.au'', APIKey = apiKey, useAPIKey = True\<rparr>"

definition requiresAPIKey :: "QRNGClient \<Rightarrow> bool" where
  "requiresAPIKey c = useAPIKey c"

record QRNGResponse =
  Type :: string
  Length :: go_int
  Success :: bool
  Data :: "go_int list"
  CompletionTime :: string
  Seed :: string
  Refresh :: bool
  Error :: string
  Info :: "string list"

text \<open>
  A request as \<open>doRequest\<close> builds it: a GET of the endpoint with the query parameters
  \<open>Params\<close> (the \<open>url.Values\<close>) and the header fields \<open>Header\<close>. Header names are kept
  as the code writes them (\<open>net/http\<close> sends \<open>x-api-key\<close> as \<open>X-Api-Key\<close>; header names
  are case-insensitive).
\<close>

record request =
  Endpoint :: string
  Params :: "(string \<times> string) list"
  Header :: "(string \<times> string) list"

text \<open>
  What comes back from \<open>client.Do\<close>: an error of the transport, or a response with a
  status code and a body. A body either cannot be read (\<open>io.ReadAll\<close> fails), or is
  read as bytes that \<open>json.Unmarshal\<close> rejects, or is read as bytes that
  \<open>json.Unmarshal\<close> decodes into the given struct.
\<close>

datatype body =
    Unreadable string
  | Garbled string string
  | Json string QRNGResponse

datatype reply =
    DoFails string
  | Response go_int body

text \<open>
  The world outside the client. \<open>NewRequest_err e p\<close> is the error of
  \<open>http.NewRequestWithContext\<close> for the URL made of endpoint \<open>e\<close> and parameters \<open>p\<close>
  (\<open>None\<close> when the request is created); \<open>serve k r\<close> is the answer of the transport
  to request \<open>r\<close> when \<open>k\<close> requests were sent before it; \<open>sent\<close> logs every request
  handed to the transport, oldest first.
\<close>

record world =
  NewRequest_err :: "string \<Rightarrow> (string \<times> string) list \<Rightarrow> string option"
  serve :: "nat \<Rightarrow> request \<Rightarrow> reply"
  sent :: "request list"

definition StatusOK :: go_int where
  "StatusOK = 200"

text \<open>The request \<open>doRequest\<close> builds, once the credential check has passed.\<close>

definition build_params :: "go_int \<Rightarrow> string \<Rightarrow> go_int \<Rightarrow> (string \<times> string) list" where
  "build_params len dataType blockSize =
     [(''length'', Itoa len), (''type'', dataType)] @
     (if prefix ''hex'' dataType \<and> 0 <s blockSize then [(''size'', Itoa blockSize)] else [])"

definition build_request :: "QRNGClient \<Rightarrow> go_int \<Rightarrow> string \<Rightarrow> go_int \<Rightarrow> request" where
  "build_request c len dataType blockSize =
     \<lparr>Endpoint = APIEndpoint c,
      Params = build_params len dataType blockSize,
      Header = (if requiresAPIKey c then [(''x-api-key'', APIKey c)] else [])\<rparr>"

text \<open>The part of \<open>doRequest\<close> after \<open>client.Do\<close>: status, body, envelope.\<close>

definition decode_reply :: "go_int \<Rightarrow> reply \<Rightarrow> error + QRNGResponse" where
  "decode_reply len r =
     (case r of
        DoFails m \<Rightarrow> Inl (Wrap ''request failed: '' (External m) [])
      | Response status b \<Rightarrow>
          if status \<noteq> StatusOK then
            (case b of
               Unreadable m \<Rightarrow>
                 Inl (Wrap (''unexpected status code '' @ Itoa status @ '': error reading body: '')
                        (External m) [])
             | Garbled raw m \<Rightarrow>
                 Inl (Errorf (''unexpected status code '' @ Itoa status @ '': '' @ raw))
             | Json raw qr \<Rightarrow>
                 Inl (Errorf (''unexpected status code '' @ Itoa status @ '': '' @ raw)))
          else
            (case b of
               Unreadable m \<Rightarrow> Inl (Wrap ''failed reading response: '' (External m) [])
             | Garbled raw m \<Rightarrow> Inl (Wrap ''json parse error: '' (External m) [])
             | Json raw qr \<Rightarrow>
                 if \<not> Success qr then
                   (if Error qr \<noteq> [] then Inl (Errorf (''api error: '' @ Error qr))
                    else Inl (New ''api request failed''))
                 else if int (length (Data qr)) < sint len then
                   Inl (Errorf (''insufficient data: expected '' @ Itoa len @ '', got '' @
                                Itoa (word_of_int (int (length (Data qr))))))
                 else Inr qr))"

definition doRequest ::
  "QRNGClient \<Rightarrow> go_int \<Rightarrow> string \<Rightarrow> go_int \<Rightarrow> world \<Rightarrow> (error + QRNGResponse) \<times> world" where
  "doRequest c len dataType blockSize w =
     (if requiresAPIKey c \<and> APIKey c = [] then (Inl ErrMissingAPIKey, w)
      else
        (case NewRequest_err w (APIEndpoint c) (build_params len dataType blockSize) of
           Some m \<Rightarrow> (Inl (Wrap ''request creation failed: '' (External m) []), w)
         | None \<Rightarrow>
             (let req = build_request c len dataType blockSize
              in (decode_reply len (serve w (length (sent w)) req),
                  w\<lparr>sent := sent w @ [req]\<rparr>))))"

section \<open>Bits\<close>

datatype 'a flow = Return 'a | Next 'a

text \<open>
  The inner loop of \<open>extractBits\<close>, \<open>for i := 7; i >= 0; i--\<close>: the counter is \<open>i + 1\<close>.
  \<open>Return\<close> is the \<open>return\<close> inside the loop, \<open>Next\<close> the loop running to its end.
  \<open>>>\<close> on an \<open>int\<close> is the arithmetic shift.
\<close>

fun extractBits_inner :: "go_int \<Rightarrow> go_int \<Rightarrow> nat \<Rightarrow> go_int list \<Rightarrow> go_int list flow" where
  "extractBits_inner byteVal numBits 0 bits = Next bits"
| "extractBits_inner byteVal numBits (Suc i) bits =
     (let bits' = bits @ [signed_drop_bit i byteVal AND 1]
      in if int (length bits') = sint numBits then Return bits'
         else extractBits_inner byteVal numBits i bits')"

fun extractBits_outer :: "go_int list \<Rightarrow> go_int \<Rightarrow> go_int list \<Rightarrow> go_int list" where
  "extractBits_outer [] numBits bits = bits"
| "extractBits_outer (byteVal # data) numBits bits =
     (case extractBits_inner byteVal numBits 8 bits of
        Return r \<Rightarrow> r
      | Next bits' \<Rightarrow> extractBits_outer data numBits bits')"

text \<open>
  \<open>make([]int, 0, numBits)\<close> only reserves capacity; \<open>GetRandomBits\<close>, the one caller,
  passes a \<open>numBits\<close> between 1 and 8192.
\<close>

definition extractBits :: "go_int list \<Rightarrow> go_int \<Rightarrow> go_int list" where
  "extractBits data numBits = extractBits_outer data numBits []"

definition GetRandomBits ::
  "QRNGClient \<Rightarrow> go_int \<Rightarrow> world \<Rightarrow> (error + go_int list) \<times> world" where
  "GetRandomBits c numBits w =
     (if numBits <s 1 \<or> maxBits <s numBits then
        (Inl (Errorf (''numBits must be between 1 and '' @ Itoa maxBits)), w)
      else
        (let requiredBytes = go_div (numBits + 7) 8
         in case doRequest c requiredBytes ''uint8'' 0 w of
              (Inl err, w') \<Rightarrow> (Inl err, w')
            | (Inr qr, w') \<Rightarrow> (Inr (extractBits (Data qr) numBits), w')))"

section \<open>Bytes and 16-bit words\<close>

text \<open>\<open>uint8(v)\<close> and \<open>uint16(v)\<close> keep the low 8 and 16 bits of \<open>v\<close>.\<close>

definition convertUint8 :: "go_int list \<Rightarrow> uint8 list" where
  "convertUint8 data = map ucast data"

definition GetRandomUint8 ::
  "QRNGClient \<Rightarrow> go_int \<Rightarrow> world \<Rightarrow> (error + uint8 list) \<times> world" where
  "GetRandomUint8 c numBytes w =
     (if numBytes <s 1 \<or> maxUint8Length <s numBytes then
        (Inl (Errorf (''numBytes must be between 1 and '' @ Itoa maxUint8Length)), w)
      else
        (case doRequest c numBytes ''uint8'' 0 w of
           (Inl err, w') \<Rightarrow> (Inl err, w')
         | (Inr qr, w') \<Rightarrow> (Inr (convertUint8 (Data qr)), w')))"

definition convertUint16 :: "go_int list \<Rightarrow> uint16 list" where
  "convertUint16 data = map ucast data"

definition GetRandomUint16 ::
  "QRNGClient \<Rightarrow> go_int \<Rightarrow> world \<Rightarrow> (error + uint16 list) \<times> world" where
  "GetRandomUint16 c numShorts w =
     (if numShorts <s 1 \<or> maxUint16Length <s numShorts then
        (Inl (Errorf (''numShorts must be between 1 and '' @ Itoa maxUint16Length)), w)
      else
        (case doRequest c numShorts ''uint16'' 0 w of
           (Inl err, w') \<Rightarrow> (Inl err, w')
         | (Inr qr, w') \<Rightarrow> (Inr (convertUint16 (Data qr)), w')))"

section \<open>Hexadecimal strings\<close>

text \<open>
  The format is \<open>"%04x"\<close>, or \<open>"%0<2 * blockSize>x"\<close> for \<open>hex8\<close>; \<open>GetRandomHex\<close>, the
  one caller, passes a \<open>blockSize\<close> between 1 and 10, so the width is at least 2.
\<close>

definition formatHex :: "go_int list \<Rightarrow> string \<Rightarrow> go_int \<Rightarrow> string list" where
  "formatHex data hexType blockSize =
     (let width = (if hexType = ''hex8'' then blockSize * 2 else 4)
      in map (Sprintf_0x (nat (sint width))) data)"

definition GetRandomHex ::
  "QRNGClient \<Rightarrow> go_int \<Rightarrow> go_int \<Rightarrow> string \<Rightarrow> world \<Rightarrow> (error + string list) \<times> world" where
  "GetRandomHex c blockCount blockSize hexType w =
     (if hexType \<noteq> ''hex8'' \<and> hexType \<noteq> ''hex16'' then (Inl ErrInvalidHexType, w)
      else if blockSize <s 1 \<or> 10 <s blockSize then (Inl ErrInvalidBlockSize, w)
      else
        (case doRequest c blockCount hexType blockSize w of
           (Inl err, w') \<Rightarrow> (Inl err, w')
         | (Inr qr, w') \<Rightarrow> (Inr (formatHex (Data qr) hexType blockSize), w')))"

section \<open>The bounded sampler\<close>

text \<open>
  The loop \<open>for (1 << bitSize) < rangeSize { bitSize++ }\<close>. The shift is a 64-bit one:
  \<open>1 << 63\<close> is negative and \<open>1 << n\<close> is 0 from \<open>n = 64\<close> on. A shift count that has
  wrapped around to a negative number panics, which is where the loop ends when the
  shifted value never reaches \<open>rangeSize\<close>.
\<close>

function bitSize_loop :: "go_int \<Rightarrow> go_int \<Rightarrow> error + go_int" where
  "bitSize_loop bitSize rangeSize =
     (if bitSize <s 0 then Inl (Panic ''runtime error: negative shift amount'')
      else if shl1 bitSize <s rangeSize then bitSize_loop (bitSize + 1) rangeSize
      else Inr bitSize)"
  by pat_completeness auto

termination
proof (relation "measure (\<lambda>(b, r). if sint b < 0 then 0 else nat (2 ^ 63 - sint b))", goal_cases)
  case 1
  show ?case by simp
next
  case (2 bitSize rangeSize)
  then have nn: "0 \<le> sint bitSize" by (simp add: word_sless_alt)
  have lt: "sint bitSize < 2 ^ 63" using sint_lt [of bitSize] by simp
  have step: "sint (bitSize + 1) = signed_take_bit 63 (sint bitSize + 1)"
    by (simp add: sint_word_add)
  show ?case
  proof (cases "sint bitSize = 2 ^ 63 - 1")
    case True
    have "signed_take_bit (63::nat) ((2::int) ^ 63) = - (2 ^ 63)"
      by (simp add: signed_take_bit_eq_take_bit_shift take_bit_eq_mod)
    with True step have "sint (bitSize + 1) = - (2 ^ 63)" by simp
    with True show ?thesis by simp
  next
    case False
    with nn lt have "signed_take_bit 63 (sint bitSize + 1) = sint bitSize + 1"
      by (intro signed_take_bit_int_eq_self) auto
    with step nn lt show ?thesis by simp
  qed
qed

declare bitSize_loop.simps [simp del]

text \<open>\<open>bytesToInt\<close>: \<open>result = (result << 8) | int(b)\<close> over the bytes, from 0.\<close>

definition bytesToInt :: "uint8 list \<Rightarrow> go_int" where
  "bytesToInt bytes = foldl (\<lambda>result b. push_bit 8 result OR ucast b) 0 bytes"

text \<open>
  The rejection loop \<open>for { ... }\<close> of \<open>GetRandomNumber\<close>. It has no bound in the code;
  here it runs for at most \<open>fuel\<close> draws, and \<open>None\<close> says that it is still running when
  the fuel is used up.
\<close>

fun sample_loop ::
  "nat \<Rightarrow> QRNGClient \<Rightarrow> go_int \<Rightarrow> go_int \<Rightarrow> go_int \<Rightarrow> go_int \<Rightarrow> world \<Rightarrow>
   (error + go_int) option \<times> world" where
  "sample_loop 0 c mn rangeSize requiredBytes msk w = (None, w)"
| "sample_loop (Suc fuel) c mn rangeSize requiredBytes msk w =
     (case GetRandomUint8 c requiredBytes w of
        (Inl err, w') \<Rightarrow> (Some (Inl err), w')
      | (Inr randomBytes, w') \<Rightarrow>
          (let randInt = bytesToInt randomBytes AND msk
           in if randInt <s rangeSize then (Some (Inr (mn + randInt)), w')
              else sample_loop fuel c mn rangeSize requiredBytes msk w'))"

text \<open>\<open>GetRandomNumber(min, max)\<close>; the bounds are \<open>mn\<close> and \<open>mx\<close> here, the mask
  is \<open>msk\<close>.\<close>

definition GetRandomNumber ::
  "nat \<Rightarrow> QRNGClient \<Rightarrow> go_int \<Rightarrow> go_int \<Rightarrow> world \<Rightarrow> (error + go_int) option \<times> world" where
  "GetRandomNumber fuel c mn mx w =
     (if mx <s mn then (Some (Inl ErrInvalidRange), w)
      else
        (let rangeSize = mx - mn + 1
         in if rangeSize \<le>s 0 then (Some (Inl ErrRangeTooLarge), w)
            else
              (case bitSize_loop 1 rangeSize of
                 Inl p \<Rightarrow> (Some (Inl p), w)
               | Inr bitSize \<Rightarrow>
                   if maxBits <s bitSize then
                     (Some (Inl (Wrap [] ErrRangeTooLarge
                                   ('': maximum supported bits is '' @ Itoa maxBits))), w)
                   else
                     (let requiredBytes = go_div (bitSize + 7) 8;
                          msk = shl1 bitSize - 1
                      in sample_loop fuel c mn rangeSize requiredBytes msk w))))"

section \<open>Auxiliary notions for stating the properties\<close>

text \<open>The answer of the transport to the request that \<open>doRequest\<close> would send next.\<close>

definition upstream_reply :: "QRNGClient \<Rightarrow> go_int \<Rightarrow> string \<Rightarrow> go_int \<Rightarrow> world \<Rightarrow> reply" where
  "upstream_reply c len dataType blockSize w =
     serve w (length (sent w)) (build_request c len dataType blockSize)"

text \<open>A successful envelope carrying the given data, as the test servers of the repository send it.\<close>

definition envelope :: "string \<Rightarrow> go_int list \<Rightarrow> QRNGResponse" where
  "envelope ty ds =
     \<lparr>Type = ty, Length = word_of_int (int (length ds)), Success = True, Data = ds,
      CompletionTime = [], Seed = [], Refresh = False, Error = [], Info = []\<rparr>"

text \<open>An envelope that reports a failure, with the given message.\<close>

definition failed_envelope :: "string \<Rightarrow> go_int list \<Rightarrow> QRNGResponse" where
  "failed_envelope msg ds = (envelope ''uint8'' ds)\<lparr>Success := False, Error := msg\<rparr>"

text \<open>A world in which every request is created and every request gets the same answer.\<close>

definition answering :: "reply \<Rightarrow> world" where
  "answering r = \<lparr>NewRequest_err = (\<lambda>_ _. None), serve = (\<lambda>_ _. r), sent = []\<rparr>"

text \<open>
  The spec's notion of a bit width: \<open>least_width_from k r b\<close> says that \<open>b\<close> is the least
  width from \<open>k\<close> on with \<open>2 ^ b \<ge> r\<close>; the minimal bit width of the spec is
  \<open>least_width_from 0\<close>.
\<close>

definition least_width_from :: "nat \<Rightarrow> int \<Rightarrow> nat \<Rightarrow> bool" where
  "least_width_from k r b \<longleftrightarrow> k \<le> b \<and> r \<le> 2 ^ b \<and> (\<forall>j \<in> {k..<b}. 2 ^ j < r)"

text \<open>The requests handed to the transport between the worlds \<open>w\<close> and \<open>w'\<close>.\<close>

definition new_requests :: "world \<Rightarrow> world \<Rightarrow> request list" where
  "new_requests w w' = drop (length (sent w)) (sent w')"

text \<open>
  The spec's unpacking of bytes into bits: each value gives its bits 7 down to 0, most
  significant first, and the values are unpacked in order.
\<close>

definition msb_first :: "go_int \<Rightarrow> go_int list" where
  "msb_first v = map (\<lambda>i. if bit v i then 1 else 0) (rev [0..<8])"

definition unpack :: "go_int list \<Rightarrow> go_int list" where
  "unpack data = concat (map msb_first data)"

text \<open>
  The spec's width of a hexadecimal block: \<open>2 * blockSize\<close> digits for \<open>hex8\<close>, 4 digits
  for \<open>hex16\<close>.
\<close>

definition hex_width :: "string \<Rightarrow> go_int \<Rightarrow> nat" where
  "hex_width hexType blockSize = (if hexType = ''hex8'' then 2 * nat (sint blockSize) else 4)"

text \<open>The number a string of lowercase hexadecimal digits stands for.\<close>

definition hex_digit_value :: "char \<Rightarrow> nat" where
  "hex_digit_value ch =
     (if ch \<in> set ''0123456789'' then of_char ch - 48 else of_char ch - 87)"

definition hex_value :: "string \<Rightarrow> nat" where
  "hex_value s = foldl (\<lambda>a ch. 16 * a + hex_digit_value ch) 0 s"

section \<open>Properties of the round trip\<close>

lemma doRequest_missing_key:
  "requiresAPIKey c \<Longrightarrow> APIKey c = [] \<Longrightarrow>
   doRequest c len dataType blockSize w = (Inl ErrMissingAPIKey, w)"
  by (simp add: doRequest_def)

lemma doRequest_sends:
  "\<not> (requiresAPIKey c \<and> APIKey c = []) \<Longrightarrow>
   NewRequest_err w (APIEndpoint c) (build_params len dataType blockSize) = None \<Longrightarrow>
   doRequest c len dataType blockSize w =
     (decode_reply len (upstream_reply c len dataType blockSize w),
      w\<lparr>sent := sent w @ [build_request c len dataType blockSize]\<rparr>)"
  by (auto simp: doRequest_def upstream_reply_def Let_def)

lemma decode_reply_Inr:
  "decode_reply len r = Inr qr \<longleftrightarrow>
   (\<exists>raw. r = Response StatusOK (Json raw qr)) \<and> Success qr \<and> sint len \<le> int (length (Data qr))"
  by (auto simp: decode_reply_def split: reply.splits body.splits if_splits)

lemma doRequest_Inr:
  "doRequest c len dataType blockSize w = (Inr qr, w') \<Longrightarrow>
   (\<exists>raw. upstream_reply c len dataType blockSize w = Response StatusOK (Json raw qr)) \<and>
   Success qr \<and> sint len \<le> int (length (Data qr)) \<and>
   w' = w\<lparr>sent := sent w @ [build_request c len dataType blockSize]\<rparr>"
  by (auto simp: doRequest_def upstream_reply_def Let_def decode_reply_Inr
           split: if_splits option.splits)

section \<open>Hexadecimal strings: rejected arguments\<close>

text \<open>
  Claim C6, as the code has it. The claim gives the invalid-block-size error for every
  block size outside 1..10, whatever the type tag. \<open>GetRandomHex\<close> checks the type tag
  first: with the tag \<open>hex32\<close> and the block size 11 the result is the invalid-type error,
  not the invalid-block-size error.
\<close>

theorem GetRandomHex_type_first_counterexample:
  "GetRandomHex NewClient 1 11 ''hex32'' (answering (DoFails []))
     = (Inl ErrInvalidHexType, answering (DoFails [])) \<and>
   10 <s (11::go_int) \<and> ErrInvalidHexType \<noteq> ErrInvalidBlockSize"
  by (simp add: GetRandomHex_def ErrInvalidHexType_def ErrInvalidBlockSize_def word_sless_alt)

text \<open>
  Claim C6, amended. \<open>GetRandomHex\<close> checks the type tag first and the block size
  second, and returns before anything is sent: with a tag other than \<open>hex8\<close> and \<open>hex16\<close>
  the result is the invalid-type error, whatever the block size; with a recognised tag
  and a block size outside 1..10 it is the invalid-block-size error. So a block size
  outside 1..10 always makes the call fail with one of the two errors. In each case the
  world is returned as it was: no request has been handed to the transport.
\<close>

theorem GetRandomHex_rejects:
  "(hexType \<noteq> ''hex8'' \<and> hexType \<noteq> ''hex16'' \<longrightarrow>
      GetRandomHex c blockCount blockSize hexType w = (Inl ErrInvalidHexType, w)) \<and>
   ((hexType = ''hex8'' \<or> hexType = ''hex16'') \<and> (blockSize <s 1 \<or> 10 <s blockSize) \<longrightarrow>
      GetRandomHex c blockCount blockSize hexType w = (Inl ErrInvalidBlockSize, w)) \<and>
   (blockSize <s 1 \<or> 10 <s blockSize \<longrightarrow>
      GetRandomHex c blockCount blockSize hexType w = (Inl ErrInvalidHexType, w) \<or>
      GetRandomHex c blockCount blockSize hexType w = (Inl ErrInvalidBlockSize, w))"
  by (auto simp: GetRandomHex_def)

theorem GetRandomHex_rejects_witness:
  "GetRandomHex (NewClientWithAPIKey ''---'') 1 2 ''hex32'' (answering (DoFails []))
     = (Inl ErrInvalidHexType, answering (DoFails [])) \<and>
   GetRandomHex (NewClientWithAPIKey ''---'') 1 11 ''hex8'' (answering (DoFails []))
     = (Inl ErrInvalidBlockSize, answering (DoFails []))"
  using GetRandomHex_rejects [of "''hex32''" "NewClientWithAPIKey ''---''" 1 2 "answering (DoFails [])"]
        GetRandomHex_rejects [of "''hex8''" "NewClientWithAPIKey ''---''" 1 11 "answering (DoFails [])"]
  by (simp add: word_sless_alt)

section \<open>Credential handling\<close>

text \<open>
  Claim C7. Every request is made by \<open>doRequest\<close>. When the client requires a key and
  the key is empty, \<open>doRequest\<close> returns the missing-key error and the world as it was
  (nothing is sent). Otherwise, when the request can be created, exactly one request is
  handed to the transport: for a client that requires a key its header is the single
  field \<open>x-api-key\<close> with the configured key, for a legacy client the header is empty.
  When the request cannot be created, nothing is sent.
\<close>

theorem doRequest_credential:
  "(requiresAPIKey c \<and> APIKey c = [] \<longrightarrow>
      doRequest c len dataType blockSize w = (Inl ErrMissingAPIKey, w)) \<and>
   (\<not> (requiresAPIKey c \<and> APIKey c = []) \<and>
    NewRequest_err w (APIEndpoint c) (build_params len dataType blockSize) = None \<longrightarrow>
      sent (snd (doRequest c len dataType blockSize w)) =
        sent w @ [\<lparr>Endpoint = APIEndpoint c, Params = build_params len dataType blockSize,
                   Header = (if requiresAPIKey c then [(''x-api-key'', APIKey c)] else [])\<rparr>]) \<and>
   (\<forall>m. NewRequest_err w (APIEndpoint c) (build_params len dataType blockSize) = Some m \<longrightarrow>
      sent (snd (doRequest c len dataType blockSize w)) = sent w)"
  by (auto simp: doRequest_def build_request_def Let_def)

theorem doRequest_credential_witness:
  "doRequest (NewClientWithAPIKey []) 1 ''uint16'' 0 (answering (DoFails []))
     = (Inl ErrMissingAPIKey, answering (DoFails [])) \<and>
   sent (snd (doRequest (NewClientWithAPIKey ''---'') 1 ''uint16'' 0 (answering (DoFails [])))) =
     [\<lparr>Endpoint = ''https://api.quantumnumbers.anu.edu.au'',
       Params = [(''length'', ''1''), (''type'', ''uint16'')],
       Header = [(''x-api-key'', ''---'')]\<rparr>] \<and>
   sent (snd (doRequest NewClient 1 ''uint16'' 0 (answering (DoFails [])))) =
     [\<lparr>Endpoint = ''https://qrng.anu.edu.au/API/jsonI.php'',
       Params = [(''length'', ''1''), (''type'', ''uint16'')],
       Header = []\<rparr>]"
  using doRequest_credential [of "NewClientWithAPIKey []" 1 "''uint16''" 0 "answering (DoFails [])"]
        doRequest_credential [of "NewClientWithAPIKey ''---''" 1 "''uint16''" 0 "answering (DoFails [])"]
        doRequest_credential [of "NewClient" 1 "''uint16''" 0 "answering (DoFails [])"]
  by (simp add: NewClientWithAPIKey_def NewClient_def requiresAPIKey_def answering_def
        build_params_def Itoa_def word_sless_alt digits_of.simps digit_char_def)

section \<open>Decode failures\<close>

lemma Itoa_small [simp]: "Itoa 1 = ''1''" "Itoa 2 = ''2''"
  by (simp_all add: Itoa_def word_sless_alt digits_of.simps digit_char_def)

text \<open>
  Claim C8. Take a call that reaches the decoder: the credential check passes, the
  request is created, and the transport answers with status 200 and a body that decodes
  to the envelope \<open>qr\<close>. If \<open>Success\<close> is false the result is the error
  \<open>api error: <message>\<close> when the envelope carries a message and the error
  \<open>api request failed\<close> when it carries none. If the data are fewer than the requested
  length the result is an error whatever the success flag (the insufficient-data error
  when \<open>Success\<close> is true). A result is either an error or an envelope, never both, and
  an envelope is only returned when it is the successful \<open>qr\<close> with enough data.
\<close>

theorem doRequest_decode_failures:
  assumes "\<not> (requiresAPIKey c \<and> APIKey c = [])"
    and "NewRequest_err w (APIEndpoint c) (build_params len dataType blockSize) = None"
    and "upstream_reply c len dataType blockSize w = Response StatusOK (Json raw qr)"
  shows "(\<not> Success qr \<and> Error qr \<noteq> [] \<longrightarrow>
            fst (doRequest c len dataType blockSize w) = Inl (Errorf (''api error: '' @ Error qr))) \<and>
         (\<not> Success qr \<and> Error qr = [] \<longrightarrow>
            fst (doRequest c len dataType blockSize w) = Inl (New ''api request failed'')) \<and>
         (Success qr \<and> int (length (Data qr)) < sint len \<longrightarrow>
            fst (doRequest c len dataType blockSize w) =
              Inl (Errorf (''insufficient data: expected '' @ Itoa len @ '', got '' @
                           Itoa (word_of_int (int (length (Data qr))))))) \<and>
         (int (length (Data qr)) < sint len \<longrightarrow>
            (\<exists>e. fst (doRequest c len dataType blockSize w) = Inl e)) \<and>
         (\<forall>qr'. fst (doRequest c len dataType blockSize w) = Inr qr' \<longrightarrow>
            qr' = qr \<and> Success qr \<and> sint len \<le> int (length (Data qr)))"
  using assms by (auto simp: doRequest_sends decode_reply_def)

theorem doRequest_decode_failures_witness:
  "fst (doRequest NewClient 1 ''uint8'' 0
          (answering (Response StatusOK (Json [] (failed_envelope ''quota exceeded'' [7])))))
     = Inl (Errorf ''api error: quota exceeded'') \<and>
   fst (doRequest NewClient 1 ''uint8'' 0
          (answering (Response StatusOK (Json [] (failed_envelope [] [7])))))
     = Inl (New ''api request failed'') \<and>
   fst (doRequest NewClient 2 ''uint8'' 0
          (answering (Response StatusOK (Json [] (envelope ''uint8'' [7])))))
     = Inl (Errorf ''insufficient data: expected 2, got 1'')"
  using doRequest_decode_failures [of NewClient
          "answering (Response StatusOK (Json [] (failed_envelope ''quota exceeded'' [7])))"
          1 "''uint8''" 0 "[]" "failed_envelope ''quota exceeded'' [7]"]
        doRequest_decode_failures [of NewClient
          "answering (Response StatusOK (Json [] (failed_envelope [] [7])))"
          1 "''uint8''" 0 "[]" "failed_envelope [] [7]"]
        doRequest_decode_failures [of NewClient
          "answering (Response StatusOK (Json [] (envelope ''uint8'' [7])))"
          2 "''uint8''" 0 "[]" "envelope ''uint8'' [7]"]
  by (simp add: NewClient_def requiresAPIKey_def answering_def upstream_reply_def
        failed_envelope_def envelope_def)

section \<open>Bytes and 16-bit words: narrowing\<close>

lemma uint_ucast_8: "uint (ucast (v::go_int) :: uint8) = sint v mod 256"
proof -
  have "uint (ucast v :: uint8) = take_bit 8 (uint v)"
    by (simp add: unsigned_ucast_eq)
  also have "\<dots> = take_bit 8 (signed_take_bit 63 (uint v))"
    by (simp add: take_bit_signed_take_bit)
  also have "\<dots> = take_bit 8 (sint v)"
    by (simp add: sint_uint)
  finally show ?thesis by (simp add: take_bit_eq_mod)
qed

lemma uint_ucast_16: "uint (ucast (v::go_int) :: uint16) = sint v mod 65536"
proof -
  have "uint (ucast v :: uint16) = take_bit 16 (uint v)"
    by (simp add: unsigned_ucast_eq)
  also have "\<dots> = take_bit 16 (signed_take_bit 63 (uint v))"
    by (simp add: take_bit_signed_take_bit)
  also have "\<dots> = take_bit 16 (sint v)"
    by (simp add: sint_uint)
  finally show ?thesis by (simp add: take_bit_eq_mod)
qed

lemma GetRandomUint8_Inr:
  "GetRandomUint8 c n w = (Inr bs, w') \<Longrightarrow>
   \<exists>qr. doRequest c n ''uint8'' 0 w = (Inr qr, w') \<and> bs = convertUint8 (Data qr) \<and>
        1 \<le> sint n \<and> sint n \<le> 1024"
  by (auto simp: GetRandomUint8_def maxUint8Length_def word_sless_alt
           split: if_splits prod.splits sum.splits)

lemma GetRandomUint16_Inr:
  "GetRandomUint16 c n w = (Inr bs, w') \<Longrightarrow>
   \<exists>qr. doRequest c n ''uint16'' 0 w = (Inr qr, w') \<and> bs = convertUint16 (Data qr) \<and>
        1 \<le> sint n \<and> sint n \<le> 1024"
  by (auto simp: GetRandomUint16_def maxUint16Length_def word_sless_alt
           split: if_splits prod.splits sum.splits)

lemma GetRandomHex_Inr:
  "GetRandomHex c n blockSize hexType w = (Inr ss, w') \<Longrightarrow>
   \<exists>qr. doRequest c n hexType blockSize w = (Inr qr, w') \<and>
        ss = formatHex (Data qr) hexType blockSize \<and>
        (hexType = ''hex8'' \<or> hexType = ''hex16'') \<and> 1 \<le> sint blockSize \<and> sint blockSize \<le> 10"
  by (auto simp: GetRandomHex_def word_sless_alt split: if_splits prod.splits sum.splits)

text \<open>
  Claim C9, as the code has it. The claim says that a value outside the target width
  makes \<open>GetRandomUint8\<close> and \<open>GetRandomUint16\<close> fail. They do not look at the values:
  with the upstream data \<open>[256]\<close> the call for one byte returns \<open>[0]\<close>, and with
  \<open>[65536]\<close> the call for one 16-bit word returns \<open>[0]\<close>.
\<close>

theorem GetRandomUint_truncates_counterexample:
  "fst (GetRandomUint8 NewClient 1
          (answering (Response StatusOK (Json [] (envelope ''uint8'' [256]))))) = Inr [0] \<and>
   fst (GetRandomUint16 NewClient 1
          (answering (Response StatusOK (Json [] (envelope ''uint16'' [65536]))))) = Inr [0]"
  by (simp add: GetRandomUint8_def GetRandomUint16_def maxUint8Length_def maxUint16Length_def
        word_sless_alt doRequest_sends NewClient_def requiresAPIKey_def answering_def
        upstream_reply_def decode_reply_def envelope_def convertUint8_def convertUint16_def)

text \<open>
  Claim C9, amended. For a count between 1 and 1024, a usable client and a successful
  envelope with at least the requested number of integers, \<open>GetRandomUint8\<close> and
  \<open>GetRandomUint16\<close> succeed whatever the integers are, and each integer is narrowed to
  the target width: the result holds its value modulo 256, respectively modulo 65536.
\<close>

theorem GetRandomUint_narrows:
  assumes "\<not> (requiresAPIKey c \<and> APIKey c = [])"
    and "1 \<le> sint n" and "sint n \<le> 1024"
    and "Success qr" and "sint n \<le> int (length (Data qr))"
  shows "(NewRequest_err w (APIEndpoint c) (build_params n ''uint8'' 0) = None \<and>
          upstream_reply c n ''uint8'' 0 w = Response StatusOK (Json raw qr) \<longrightarrow>
            (\<exists>bs. fst (GetRandomUint8 c n w) = Inr bs \<and> length bs = length (Data qr) \<and>
               (\<forall>i < length bs. uint (bs ! i) = sint (Data qr ! i) mod 256))) \<and>
         (NewRequest_err w (APIEndpoint c) (build_params n ''uint16'' 0) = None \<and>
          upstream_reply c n ''uint16'' 0 w = Response StatusOK (Json raw qr) \<longrightarrow>
            (\<exists>ws. fst (GetRandomUint16 c n w) = Inr ws \<and> length ws = length (Data qr) \<and>
               (\<forall>i < length ws. uint (ws ! i) = sint (Data qr ! i) mod 65536)))"
proof -
  have dec: "decode_reply n (Response StatusOK (Json raw qr)) = Inr qr"
    using assms(4,5) by (simp add: decode_reply_Inr)
  have guard8: "\<not> (n <s 1 \<or> maxUint8Length <s n)"
    using assms(2,3) by (simp add: word_sless_alt maxUint8Length_def)
  have guard16: "\<not> (n <s 1 \<or> maxUint16Length <s n)"
    using assms(2,3) by (simp add: word_sless_alt maxUint16Length_def)
  show ?thesis
  proof (intro conjI impI)
    assume h: "NewRequest_err w (APIEndpoint c) (build_params n ''uint8'' 0) = None \<and>
               upstream_reply c n ''uint8'' 0 w = Response StatusOK (Json raw qr)"
    then have "fst (GetRandomUint8 c n w) = Inr (convertUint8 (Data qr))"
      using assms(1) guard8 dec by (simp add: GetRandomUint8_def doRequest_sends)
    then show "\<exists>bs. fst (GetRandomUint8 c n w) = Inr bs \<and> length bs = length (Data qr) \<and>
               (\<forall>i < length bs. uint (bs ! i) = sint (Data qr ! i) mod 256)"
      by (simp add: convertUint8_def uint_ucast_8)
  next
    assume h: "NewRequest_err w (APIEndpoint c) (build_params n ''uint16'' 0) = None \<and>
               upstream_reply c n ''uint16'' 0 w = Response StatusOK (Json raw qr)"
    then have "fst (GetRandomUint16 c n w) = Inr (convertUint16 (Data qr))"
      using assms(1) guard16 dec by (simp add: GetRandomUint16_def doRequest_sends)
    then show "\<exists>ws. fst (GetRandomUint16 c n w) = Inr ws \<and> length ws = length (Data qr) \<and>
               (\<forall>i < length ws. uint (ws ! i) = sint (Data qr ! i) mod 65536)"
      by (simp add: convertUint16_def uint_ucast_16)
  qed
qed

theorem GetRandomUint_narrows_witness:
  "(\<exists>bs. fst (GetRandomUint8 NewClient 1
                 (answering (Response StatusOK (Json [] (envelope ''uint8'' [257]))))) = Inr bs \<and>
         length bs = 1 \<and> uint (bs ! 0) = 1) \<and>
   (\<exists>ws. fst (GetRandomUint16 NewClient 1
                 (answering (Response StatusOK (Json [] (envelope ''uint8'' [257]))))) = Inr ws \<and>
         length ws = 1 \<and> uint (ws ! 0) = 257)"
proof -
  let ?w = "answering (Response StatusOK (Json [] (envelope ''uint8'' [257])))"
  have both:
    "(\<exists>bs. fst (GetRandomUint8 NewClient 1 ?w) = Inr bs \<and> length bs = length [257::go_int] \<and>
        (\<forall>i < length bs. uint (bs ! i) = sint ([257::go_int] ! i) mod 256)) \<and>
     (\<exists>ws. fst (GetRandomUint16 NewClient 1 ?w) = Inr ws \<and> length ws = length [257::go_int] \<and>
        (\<forall>i < length ws. uint (ws ! i) = sint ([257::go_int] ! i) mod 65536))"
    using GetRandomUint_narrows [of NewClient 1 "envelope ''uint8'' [257]" ?w "[]"]
    by (simp add: NewClient_def requiresAPIKey_def answering_def upstream_reply_def envelope_def)
  from both obtain bs where bs: "fst (GetRandomUint8 NewClient 1 ?w) = Inr bs" "length bs = 1"
    "\<forall>i < length bs. uint (bs ! i) = sint ([257::go_int] ! i) mod 256" by auto
  from both obtain ws where ws: "fst (GetRandomUint16 NewClient 1 ?w) = Inr ws" "length ws = 1"
    "\<forall>i < length ws. uint (ws ! i) = sint ([257::go_int] ! i) mod 65536" by auto
  from bs(2,3) have "uint (bs ! 0) = 1" by simp
  moreover from ws(2,3) have "uint (ws ! 0) = 257" by simp
  ultimately show ?thesis using bs(1,2) ws(1,2) by blast
qed

section \<open>Successful results come from a successful envelope\<close>

text \<open>
  Whenever \<open>GetRandomUint8\<close>, \<open>GetRandomUint16\<close> or \<open>GetRandomHex\<close> succeeds, the transport
  has answered with a successful envelope holding at least the requested number of
  integers, and the result is as long as the data of that envelope.
\<close>

lemma success_comes_from_envelope:
  "(GetRandomUint8 c n w = (Inr bs, w') \<longrightarrow>
      (\<exists>raw qr. upstream_reply c n ''uint8'' 0 w = Response StatusOK (Json raw qr) \<and>
         sint n \<le> int (length (Data qr)) \<and> length bs = length (Data qr))) \<and>
   (GetRandomUint16 c n w = (Inr ws, w') \<longrightarrow>
      (\<exists>raw qr. upstream_reply c n ''uint16'' 0 w = Response StatusOK (Json raw qr) \<and>
         sint n \<le> int (length (Data qr)) \<and> length ws = length (Data qr))) \<and>
   (GetRandomHex c n blockSize hexType w = (Inr ss, w') \<longrightarrow>
      (\<exists>raw qr. upstream_reply c n hexType blockSize w = Response StatusOK (Json raw qr) \<and>
         sint n \<le> int (length (Data qr)) \<and> length ss = length (Data qr)))"
proof (intro conjI impI)
  assume "GetRandomUint8 c n w = (Inr bs, w')"
  then obtain qr where q: "doRequest c n ''uint8'' 0 w = (Inr qr, w')" "bs = convertUint8 (Data qr)"
    using GetRandomUint8_Inr by blast
  from doRequest_Inr [OF q(1)] q(2)
  show "\<exists>raw qr. upstream_reply c n ''uint8'' 0 w = Response StatusOK (Json raw qr) \<and>
         sint n \<le> int (length (Data qr)) \<and> length bs = length (Data qr)"
    by (auto simp: convertUint8_def)
next
  assume "GetRandomUint16 c n w = (Inr ws, w')"
  then obtain qr where q: "doRequest c n ''uint16'' 0 w = (Inr qr, w')" "ws = convertUint16 (Data qr)"
    using GetRandomUint16_Inr by blast
  from doRequest_Inr [OF q(1)] q(2)
  show "\<exists>raw qr. upstream_reply c n ''uint16'' 0 w = Response StatusOK (Json raw qr) \<and>
         sint n \<le> int (length (Data qr)) \<and> length ws = length (Data qr)"
    by (auto simp: convertUint16_def)
next
  assume "GetRandomHex c n blockSize hexType w = (Inr ss, w')"
  then obtain qr where q: "doRequest c n hexType blockSize w = (Inr qr, w')"
      "ss = formatHex (Data qr) hexType blockSize"
    using GetRandomHex_Inr by blast
  from doRequest_Inr [OF q(1)] q(2)
  show "\<exists>raw qr. upstream_reply c n hexType blockSize w = Response StatusOK (Json raw qr) \<and>
         sint n \<le> int (length (Data qr)) \<and> length ss = length (Data qr)"
    by (auto simp: formatHex_def Let_def)
qed

section \<open>Properties of the bounded sampler\<close>

subsection \<open>Arithmetic of 64-bit integers\<close>

lemma sint_succ: "sint (b::go_int) < 2 ^ 63 - 1 \<Longrightarrow> sint (b + 1) = sint b + 1"
proof -
  assume a: "sint b < 2 ^ 63 - 1"
  have lo: "- (2 ^ 63) \<le> sint b" using sint_ge [of b] by simp
  have "sint (b + 1) = signed_take_bit 63 (sint b + 1)"
    by (simp add: sint_word_add)
  also have "\<dots> = sint b + 1"
    using a lo by (intro signed_take_bit_int_eq_self) auto
  finally show ?thesis .
qed

lemma sint_succ_wrap: "sint (b::go_int) = 2 ^ 63 - 1 \<Longrightarrow> sint (b + 1) < 0"
proof -
  assume a: "sint b = 2 ^ 63 - 1"
  have "sint (b + 1) = signed_take_bit 63 (sint b + 1)"
    by (simp add: sint_word_add)
  also have "\<dots> = signed_take_bit (63::nat) ((2::int) ^ 63)" using a by simp
  also have "\<dots> = - (2 ^ 63)" by (simp add: signed_take_bit_eq_take_bit_shift take_bit_eq_mod)
  finally show ?thesis by simp
qed

lemma shl1_word_of_int: "shl1 b = (word_of_int (2 ^ nat (sint b)) :: go_int)"
  by (simp add: shl1_def)

lemma sint_shl1_small:
  assumes "0 \<le> sint b" "sint b \<le> 62"
  shows "sint (shl1 b) = 2 ^ nat (sint b)"
proof -
  let ?n = "nat (sint b)"
  have n: "?n \<le> 62" using assms by simp
  have "sint (shl1 b) = signed_take_bit 63 ((2::int) ^ ?n)"
    unfolding shl1_word_of_int by (simp only: sint_sbintrunc') simp
  also have "\<dots> = 2 ^ ?n"
  proof (rule signed_take_bit_int_eq_self)
    show "- (2 ^ 63) \<le> (2::int) ^ ?n" by (rule order_trans [of _ 0]) simp_all
    have "(2::int) ^ ?n \<le> 2 ^ 62" using n by (intro power_increasing) simp_all
    then show "(2::int) ^ ?n < 2 ^ 63" by simp
  qed
  finally show ?thesis .
qed


lemma sint_shl1_63:
  assumes "sint b = 63"
  shows "sint (shl1 b) = - (2 ^ 63)"
proof -
  have "sint (shl1 b) = signed_take_bit (63::nat) ((2::int) ^ 63)"
    unfolding shl1_word_of_int using assms by (simp only: sint_sbintrunc') simp
  also have "\<dots> = - (2 ^ 63)"
    by (simp add: signed_take_bit_eq_take_bit_shift take_bit_eq_mod)
  finally show ?thesis .
qed

lemma shl1_large:
  assumes "64 \<le> sint b"
  shows "shl1 b = 0"
proof -
  have "LENGTH(64) \<le> nat (sint b)" using assms by simp
  then show ?thesis unfolding shl1_def by (rule push_bit_word_beyond)
qed

text \<open>Whenever the shift count is at least 63 the shifted value is not positive.\<close>

lemma sint_shl1_nonpos:
  assumes "63 \<le> sint b"
  shows "sint (shl1 b) \<le> 0"
proof (cases "sint b = 63")
  case True
  then show ?thesis by (simp add: sint_shl1_63)
next
  case False
  with assms have "64 \<le> sint b" by simp
  then show ?thesis by (simp add: shl1_large)
qed


lemma bitSize_loop_panics:
  "2 ^ 62 < sint r \<Longrightarrow> 0 \<le> sint b \<Longrightarrow>
   bitSize_loop b r = Inl (Panic ''runtime error: negative shift amount'')"
proof (induction b r rule: bitSize_loop.induct)
  case (1 bitSize rangeSize)
  have nn: "\<not> bitSize <s 0" using 1(3) by (simp add: word_sless_alt)
  have lt: "shl1 bitSize <s rangeSize"
  proof (cases "sint bitSize \<le> 62")
    case True
    then have "nat (sint bitSize) \<le> 62" by simp
    then have "(2::int) ^ nat (sint bitSize) \<le> 2 ^ 62" by (intro power_increasing) simp_all
    then show ?thesis using 1(2,3) True by (simp add: word_sless_alt sint_shl1_small)
  next
    case False
    then have "sint (shl1 bitSize) \<le> 0" by (intro sint_shl1_nonpos) simp
    moreover have "(0::int) < 2 ^ 62" by simp
    ultimately show ?thesis using 1(2) by (simp only: word_sless_alt)
  qed
  have step: "bitSize_loop bitSize rangeSize = bitSize_loop (bitSize + 1) rangeSize"
    using nn lt by (subst bitSize_loop.simps) simp
  show ?case
  proof (cases "sint bitSize = 2 ^ 63 - 1")
    case True
    then have "bitSize + 1 <s 0" using sint_succ_wrap [of bitSize] by (simp add: word_sless_alt)
    then have "bitSize_loop (bitSize + 1) rangeSize =
        Inl (Panic ''runtime error: negative shift amount'')"
      by (subst bitSize_loop.simps) simp
    with step show ?thesis by simp
  next
    case False
    have "sint bitSize < 2 ^ 63" using sint_lt [of bitSize] by simp
    with False have "sint (bitSize + 1) = sint bitSize + 1" by (intro sint_succ) simp
    with 1(3) have "0 \<le> sint (bitSize + 1)" by simp
    from 1(1) [OF nn lt 1(2) this] step show ?thesis by simp
  qed
qed

lemma bitSize_loop_returns:
  "sint r \<le> 2 ^ 62 \<Longrightarrow> 0 \<le> sint b \<Longrightarrow> sint b \<le> 62 \<Longrightarrow>
   \<exists>b'. bitSize_loop b r = Inr b' \<and> sint b \<le> sint b' \<and> sint b' \<le> 62 \<and>
        sint r \<le> 2 ^ nat (sint b') \<and>
        (\<forall>j. nat (sint b) \<le> j \<and> j < nat (sint b') \<longrightarrow> 2 ^ j < sint r)"
proof (induction b r rule: bitSize_loop.induct)
  case (1 bitSize rangeSize)
  have nn: "\<not> bitSize <s 0" using 1(3) by (simp add: word_sless_alt)
  have sh: "sint (shl1 bitSize) = 2 ^ nat (sint bitSize)"
    using 1(3,4) by (rule sint_shl1_small)
  show ?case
  proof (cases "shl1 bitSize <s rangeSize")
    case False
    then have "bitSize_loop bitSize rangeSize = Inr bitSize"
      using nn by (subst bitSize_loop.simps) simp
    moreover have "sint rangeSize \<le> 2 ^ nat (sint bitSize)"
      using False sh by (simp add: word_sless_alt)
    ultimately show ?thesis using 1(4) by auto
  next
    case True
    then have lt: "2 ^ nat (sint bitSize) < sint rangeSize"
      using sh by (simp add: word_sless_alt)
    have "sint bitSize \<noteq> 62"
    proof
      assume "sint bitSize = 62"
      with lt have "(2::int) ^ 62 < sint rangeSize" by simp
      with 1(2) show False by simp
    qed
    with 1(4) have small: "sint bitSize < 62" by simp
    then have suc: "sint (bitSize + 1) = sint bitSize + 1" by (intro sint_succ) simp
    have step: "bitSize_loop bitSize rangeSize = bitSize_loop (bitSize + 1) rangeSize"
      using nn True by (subst bitSize_loop.simps) simp
    from 1(1) [OF nn True 1(2)] suc 1(3) small
    obtain b' where b': "bitSize_loop (bitSize + 1) rangeSize = Inr b'"
      "sint bitSize + 1 \<le> sint b'" "sint b' \<le> 62" "sint rangeSize \<le> 2 ^ nat (sint b')"
      "\<forall>j. nat (sint bitSize + 1) \<le> j \<and> j < nat (sint b') \<longrightarrow> 2 ^ j < sint rangeSize"
      by auto
    have "\<forall>j. nat (sint bitSize) \<le> j \<and> j < nat (sint b') \<longrightarrow> 2 ^ j < sint rangeSize"
    proof (intro allI impI)
      fix j assume j: "nat (sint bitSize) \<le> j \<and> j < nat (sint b')"
      show "2 ^ j < sint rangeSize"
      proof (cases "j = nat (sint bitSize)")
        case True
        with lt show ?thesis by simp
      next
        case False
        with j 1(3) have "nat (sint bitSize + 1) \<le> j" by linarith
        with j b'(5) show ?thesis by blast
      qed
    qed
    with b' step show ?thesis by auto
  qed
qed

lemma rangeSize_word: "mx - mn + 1 = (word_of_int (sint mx - sint mn + 1) :: go_int)"
  by simp

lemma rangeSize_bounds:
  "sint (mn::go_int) \<le> sint (mx::go_int) \<Longrightarrow>
   1 \<le> sint mx - sint mn + 1 \<and> sint mx - sint mn + 1 \<le> 2 ^ 64"
  using sint_ge [of mn] sint_lt [of mx] by simp

lemma sint_rangeSize:
  assumes "sint (mn::go_int) \<le> sint (mx::go_int)" and "sint mx - sint mn + 1 < 2 ^ 63"
  shows "sint (mx - mn + 1) = sint mx - sint mn + 1"
proof -
  have "sint (mx - mn + 1) = signed_take_bit 63 (sint mx - sint mn + 1)"
    by (subst rangeSize_word) (simp only: sint_sbintrunc', simp)
  also have "\<dots> = sint mx - sint mn + 1"
    using assms by (intro signed_take_bit_int_eq_self) auto
  finally show ?thesis .
qed

lemma sint_rangeSize_overflow:
  assumes "sint (mn::go_int) \<le> sint (mx::go_int)" and "2 ^ 63 \<le> sint mx - sint mn + 1"
  shows "sint (mx - mn + 1) = sint mx - sint mn + 1 - 2 ^ 64"
proof -
  let ?d = "sint mx - sint mn + 1"
  have up: "?d \<le> 2 ^ 64" using rangeSize_bounds [OF assms(1)] by simp
  have "sint (mx - mn + 1) = signed_take_bit 63 ?d"
    by (subst rangeSize_word) (simp only: sint_sbintrunc', simp)
  also have "\<dots> = (?d + 2 ^ 63) mod 2 ^ 64 - 2 ^ 63"
    by (simp add: signed_take_bit_eq_take_bit_shift take_bit_eq_mod)
  also have "(?d + 2 ^ 63) mod 2 ^ 64 = (?d + 2 ^ 63 - 2 ^ 64) mod 2 ^ 64"
    by (simp only: minus_mod_self2)
  also have "\<dots> = ?d + 2 ^ 63 - 2 ^ 64"
    using assms(2) up by (intro mod_pos_pos_trivial) simp_all
  finally show ?thesis by simp
qed

lemma rangeSize_positive_iff:
  assumes "sint (mn::go_int) \<le> sint (mx::go_int)"
  shows "mx - mn + 1 \<le>s 0 \<longleftrightarrow> 2 ^ 63 \<le> sint mx - sint mn + 1"
proof (cases "2 ^ 63 \<le> sint mx - sint mn + 1")
  case True
  with sint_rangeSize_overflow [OF assms True] rangeSize_bounds [OF assms]
  show ?thesis by (simp add: word_sle_eq)
next
  case False
  then have "sint (mx - mn + 1) = sint mx - sint mn + 1"
    using assms by (intro sint_rangeSize) simp_all
  with False assms show ?thesis by (simp add: word_sle_eq)
qed

lemma sint_requiredBytes:
  assumes "1 \<le> sint (b::go_int)" and "sint b \<le> 62"
  shows "sint (go_div (b + 7) 8) = (sint b + 7) div 8"
proof -
  have "sint (b + 7) = signed_take_bit 63 (sint b + 7)"
    by (simp add: sint_word_add)
  also have "\<dots> = sint b + 7"
    using assms by (intro signed_take_bit_int_eq_self) auto
  finally have b7: "sint (b + 7) = sint b + 7" .
  have "sint (go_div (b + 7) 8) = signed_take_bit 63 ((sint b + 7) div 8)"
    unfolding go_div_def using assms b7
    by (simp only: sint_sbintrunc') (simp add: signed_divide_int_def)
  also have "\<dots> = (sint b + 7) div 8"
    using assms by (intro signed_take_bit_int_eq_self) auto
  finally show ?thesis .
qed

lemma ceiling_eighth: "\<lceil>real_of_int k / 8\<rceil> = (k + 7) div 8"
proof -
  have "\<lceil>real_of_int k / real_of_int 8\<rceil> = - (- k div 8)"
    by (rule ceiling_divide_eq_div)
  also have "\<dots> = (k + 7) div 8" by presburger
  finally show ?thesis by simp
qed

subsection \<open>Rejected ranges\<close>

lemma bitSize_loop_Inr:
  assumes "bitSize_loop 1 r = Inr b"
  shows "1 \<le> sint b \<and> sint b \<le> 62"
proof (cases "sint r \<le> 2 ^ 62")
  case True
  from bitSize_loop_returns [OF True, of 1] assms show ?thesis by auto
next
  case False
  then have "bitSize_loop 1 r = Inl (Panic ''runtime error: negative shift amount'')"
    by (intro bitSize_loop_panics) simp_all
  with assms show ?thesis by simp
qed

lemma sint_maxBits: "sint maxBits = 8192"
  by (simp add: maxBits_def maxUint8Length_def)

text \<open>
  Claim C3. With \<open>min > max\<close> the result is the range error. With \<open>min \<le> max\<close> and a
  range size \<open>max - min + 1\<close> that does not fit a 64-bit \<open>int\<close> the computed size wraps to
  a non-positive number and the result is the range-too-large error. In both cases the
  result is there whatever the fuel, and the world is returned as it was: no request
  has been made. The third cause of the claim, a width above 8192 bits, cannot arise
  with 64-bit integers: a width the loop returns is at most 62, so the guard
  \<open>bitSize > maxBits\<close> never fires.
\<close>

theorem GetRandomNumber_rejects:
  "(sint mx < sint mn \<longrightarrow>
      GetRandomNumber fuel c mn mx w = (Some (Inl ErrInvalidRange), w)) \<and>
   (sint mn \<le> sint mx \<and> 2 ^ 63 \<le> sint mx - sint mn + 1 \<longrightarrow>
      mx - mn + 1 \<le>s 0 \<and>
      GetRandomNumber fuel c mn mx w = (Some (Inl ErrRangeTooLarge), w)) \<and>
   (\<forall>b. bitSize_loop 1 (mx - mn + 1) = Inr b \<longrightarrow> sint b \<le> 62 \<and> \<not> maxBits <s b)"
proof (intro conjI impI allI)
  assume "sint mx < sint mn"
  then show "GetRandomNumber fuel c mn mx w = (Some (Inl ErrInvalidRange), w)"
    by (simp add: GetRandomNumber_def word_sless_alt)
next
  assume a: "sint mn \<le> sint mx \<and> 2 ^ 63 \<le> sint mx - sint mn + 1"
  then show neg: "mx - mn + 1 \<le>s 0" by (simp add: rangeSize_positive_iff)
  with a show "GetRandomNumber fuel c mn mx w = (Some (Inl ErrRangeTooLarge), w)"
    by (simp add: GetRandomNumber_def word_sless_alt Let_def)
next
  fix b assume "bitSize_loop 1 (mx - mn + 1) = Inr b"
  then have "sint b \<le> 62" using bitSize_loop_Inr by blast
  then show "sint b \<le> 62" "\<not> maxBits <s b"
    by (simp_all add: word_sless_alt sint_maxBits)
qed

lemma bitSize_loop_256: "bitSize_loop 1 256 = Inr 8"
  by (simp add: bitSize_loop.simps shl1_def word_sless_alt)

theorem GetRandomNumber_rejects_witness:
  "GetRandomNumber 0 NewClient 10 5 (answering (DoFails []))
     = (Some (Inl ErrInvalidRange), answering (DoFails [])) \<and>
   GetRandomNumber 0 NewClient 0 9223372036854775807 (answering (DoFails []))
     = (Some (Inl ErrRangeTooLarge), answering (DoFails [])) \<and>
   bitSize_loop 1 (255 - 0 + 1) = Inr 8 \<and> sint (8::go_int) \<le> 62"
  using GetRandomNumber_rejects [where mn = 10 and mx = 5 and fuel = 0 and c = NewClient
          and w = "answering (DoFails [])"]
        GetRandomNumber_rejects [where mn = 0 and mx = 9223372036854775807 and fuel = 0
          and c = NewClient and w = "answering (DoFails [])"]
        GetRandomNumber_rejects [where mn = 0 and mx = 255 and fuel = 0 and c = NewClient
          and w = "answering (DoFails [])"]
        bitSize_loop_256
  by simp

text \<open>
  A range of more than \<open>2 ^ 62\<close> numbers that still fits 64 bits passes both checks, and
  then no 64-bit value \<open>1 << bitSize\<close> reaches the range size: the width loop ends in the
  panic, before any request is made.
\<close>

lemma GetRandomNumber_wide_range:
  assumes "sint mn \<le> sint mx" and "2 ^ 62 < sint mx - sint mn + 1"
    and "sint mx - sint mn + 1 < 2 ^ 63"
  shows "GetRandomNumber fuel c mn mx w =
           (Some (Inl (Panic ''runtime error: negative shift amount'')), w)"
proof -
  have r: "sint (mx - mn + 1) = sint mx - sint mn + 1"
    using assms(1,3) by (rule sint_rangeSize)
  have pos: "\<not> mx - mn + 1 \<le>s 0"
    using assms(1,3) by (simp add: rangeSize_positive_iff)
  have "bitSize_loop 1 (mx - mn + 1) = Inl (Panic ''runtime error: negative shift amount'')"
    using assms(2) r by (intro bitSize_loop_panics) simp_all
  with pos assms(1) show ?thesis
    by (simp add: GetRandomNumber_def word_sless_alt Let_def)
qed

subsection \<open>Results are within the bounds\<close>

lemma sample_loop_Inr:
  "sample_loop fuel c mn r rb msk w = (Some (Inr v), w') \<Longrightarrow>
   \<exists>randomBytes. v = mn + (bytesToInt randomBytes AND msk) \<and> (bytesToInt randomBytes AND msk) <s r"
proof (induction fuel arbitrary: w)
  case 0
  then show ?case by simp
next
  case (Suc fuel)
  show ?case
  proof (cases "GetRandomUint8 c rb w")
    case (Pair res w1)
    show ?thesis
    proof (cases res)
      case (Inl e)
      with Pair Suc.prems show ?thesis by simp
    next
      case (Inr randomBytes)
      show ?thesis
      proof (cases "(bytesToInt randomBytes AND msk) <s r")
        case True
        with Pair Inr Suc.prems show ?thesis by (auto simp: Let_def)
      next
        case False
        with Pair Inr Suc.prems have "sample_loop fuel c mn r rb msk w1 = (Some (Inr v), w')"
          by (simp add: Let_def)
        then show ?thesis by (rule Suc.IH)
      qed
    qed
  qed
qed

text \<open>Fuel only bounds the number of draws: a result stays the same with more fuel.\<close>

lemma sample_loop_more_fuel:
  "sample_loop fuel c mn r rb msk w = (Some res, w') \<Longrightarrow>
   sample_loop (fuel + k) c mn r rb msk w = (Some res, w')"
proof (induction fuel arbitrary: w)
  case 0
  then show ?case by simp
next
  case (Suc fuel)
  obtain g w1 where g: "GetRandomUint8 c rb w = (g, w1)" by (cases "GetRandomUint8 c rb w")
  show ?case
  proof (cases g)
    case (Inl e)
    with g Suc.prems show ?thesis by simp
  next
    case (Inr randomBytes)
    show ?thesis
    proof (cases "(bytesToInt randomBytes AND msk) <s r")
      case True
      with g Inr Suc.prems show ?thesis by (simp add: Let_def)
    next
      case False
      with g Inr Suc.prems have "sample_loop fuel c mn r rb msk w1 = (Some res, w')"
        by (simp add: Let_def)
      then have "sample_loop (fuel + k) c mn r rb msk w1 = (Some res, w')" by (rule Suc.IH)
      with g Inr False show ?thesis by (simp add: Let_def)
    qed
  qed
qed

lemma sint_mask:
  assumes "1 \<le> sint (b::go_int)" and "sint b \<le> 62"
  shows "sint (shl1 b - 1) = 2 ^ nat (sint b) - 1"
proof -
  have sh: "sint (shl1 b) = 2 ^ nat (sint b)" using assms by (intro sint_shl1_small) simp_all
  have le: "(2::int) ^ nat (sint b) \<le> 2 ^ 62" using assms by (intro power_increasing) simp_all
  have "sint (shl1 b - 1) = signed_take_bit 63 (sint (shl1 b) - 1)"
    by (simp add: sint_word_diff)
  also have "\<dots> = sint (shl1 b) - 1"
  proof (rule signed_take_bit_int_eq_self)
    have p: "0 < sint (shl1 b)" by (simp add: sh)
    have q: "sint (shl1 b) \<le> 2 ^ 62" using le by (simp add: sh)
    from p show "- (2 ^ 63) \<le> sint (shl1 b) - 1" by simp
    from q show "sint (shl1 b) - 1 < 2 ^ 63" by simp
  qed
  finally show ?thesis using sh by simp
qed

lemma sint_and_nonneg:
  assumes "0 \<le> sint (m::go_int)"
  shows "0 \<le> sint (x AND m)"
proof -
  have "\<not> bit m 63" using assms bit_last_iff [of m] by simp
  then have "\<not> bit (x AND m) 63" by (simp add: bit_and_iff)
  then show ?thesis using bit_last_iff [of "x AND m"] by simp
qed

lemma sint_add_in_range:
  assumes "0 \<le> sint (y::go_int)" and "sint (mn::go_int) + sint y < 2 ^ 63"
  shows "sint (mn + y) = sint mn + sint y"
proof -
  have "sint (mn + y) = signed_take_bit 63 (sint mn + sint y)"
    by (simp add: sint_word_add)
  also have "\<dots> = sint mn + sint y"
    using assms sint_ge [of mn] by (intro signed_take_bit_int_eq_self) simp_all
  finally show ?thesis .
qed

text \<open>
  Claim C1. Whenever \<open>GetRandomNumber(min, max)\<close> returns a number \<open>v\<close>, whatever the
  transport has answered and however many draws were rejected before, \<open>min \<le> max\<close> and
  \<open>min \<le> v \<le> max\<close>, and \<open>v\<close> is \<open>min\<close> plus an accepted draw: the bytes of the draw,
  concatenated most significant first and masked to the computed width. With the bounds 0
  and 255 and the upstream byte 127 the result is 127, as evaluated after the theorem.
\<close>

theorem GetRandomNumber_in_range:
  assumes "GetRandomNumber fuel c mn mx w = (Some (Inr v), w')"
  shows "sint mn \<le> sint mx \<and> sint mn \<le> sint v \<and> sint v \<le> sint mx \<and>
         (\<exists>b randomBytes. bitSize_loop 1 (mx - mn + 1) = Inr b \<and>
            v = mn + (bytesToInt randomBytes AND (shl1 b - 1)))"
proof -
  let ?r = "mx - mn + 1"
  from assms have le: "sint mn \<le> sint mx"
    by (auto simp: GetRandomNumber_def word_sless_alt split: if_splits)
  from assms le have pos: "\<not> ?r \<le>s 0"
    by (auto simp: GetRandomNumber_def word_sless_alt Let_def split: if_splits)
  from assms le pos obtain b where b: "bitSize_loop 1 ?r = Inr b"
    and run: "sample_loop fuel c mn ?r (go_div (b + 7) 8) (shl1 b - 1) w = (Some (Inr v), w')"
    by (auto simp: GetRandomNumber_def word_sless_alt Let_def split: if_splits sum.splits)
  from sample_loop_Inr [OF run] obtain randomBytes where
    v: "v = mn + (bytesToInt randomBytes AND (shl1 b - 1))"
    and acc: "(bytesToInt randomBytes AND (shl1 b - 1)) <s ?r" by blast
  let ?y = "bytesToInt randomBytes AND (shl1 b - 1)"
  from bitSize_loop_Inr [OF b] have bb: "1 \<le> sint b" "sint b \<le> 62" by simp_all
  have "0 \<le> sint (shl1 b - 1)" using sint_mask [OF bb] by simp
  then have y0: "0 \<le> sint ?y" by (rule sint_and_nonneg)
  from pos le have small: "sint mx - sint mn + 1 < 2 ^ 63"
    by (simp add: rangeSize_positive_iff)
  with le have r: "sint ?r = sint mx - sint mn + 1" by (rule sint_rangeSize)
  from acc r have y1: "sint ?y \<le> sint mx - sint mn" by (simp add: word_sless_alt)
  have "sint mn + sint ?y < 2 ^ 63" using y1 sint_lt [of mx] by simp
  with y0 have "sint (mn + ?y) = sint mn + sint ?y" by (rule sint_add_in_range)
  with v y0 y1 le b show ?thesis by auto
qed

lemma GetRandomNumber_example:
  "GetRandomNumber (Suc 0) NewClient 0 255
     (answering (Response StatusOK (Json [] (envelope ''uint8'' [127]))))
     = (Some (Inr 127),
        (answering (Response StatusOK (Json [] (envelope ''uint8'' [127]))))
          \<lparr>sent := [build_request NewClient 1 ''uint8'' 0]\<rparr>)"
  by (simp add: GetRandomNumber_def word_sless_alt word_sle_eq bitSize_loop_256 sint_maxBits
        go_div_def signed_divide_int_def shl1_def
        GetRandomUint8_def maxUint8Length_def doRequest_sends NewClient_def requiresAPIKey_def
        answering_def upstream_reply_def decode_reply_def envelope_def convertUint8_def
        bytesToInt_def)

theorem GetRandomNumber_in_range_witness:
  "GetRandomNumber (Suc 0) NewClient 0 255
     (answering (Response StatusOK (Json [] (envelope ''uint8'' [127]))))
     = (Some (Inr 127),
        (answering (Response StatusOK (Json [] (envelope ''uint8'' [127]))))
          \<lparr>sent := [build_request NewClient 1 ''uint8'' 0]\<rparr>) \<and>
   sint (0::go_int) \<le> sint (127::go_int) \<and> sint (127::go_int) \<le> sint (255::go_int)"
  using GetRandomNumber_in_range [OF GetRandomNumber_example] GetRandomNumber_example
  by simp

lemma GetRandomUint8_world:
  "snd (GetRandomUint8 c n w) = w \<or>
   snd (GetRandomUint8 c n w) = w\<lparr>sent := sent w @ [build_request c n ''uint8'' 0]\<rparr>"
  by (auto simp: GetRandomUint8_def doRequest_def Let_def split: option.splits sum.splits)

lemma sample_loop_sent:
  "\<exists>k. sent (snd (sample_loop fuel c mn r rb msk w)) =
        sent w @ replicate k (build_request c rb ''uint8'' 0)"
proof (induction fuel arbitrary: w)
  case 0
  have "sent w = sent w @ replicate 0 (build_request c rb ''uint8'' 0)" by simp
  then have "sent (snd (sample_loop 0 c mn r rb msk w)) =
      sent w @ replicate 0 (build_request c rb ''uint8'' 0)" by simp
  then show ?case by blast
next
  case (Suc fuel)
  let ?req = "build_request c rb ''uint8'' 0"
  obtain res w1 where g: "GetRandomUint8 c rb w = (res, w1)" by (cases "GetRandomUint8 c rb w")
  from GetRandomUint8_world [of c rb w] g obtain k1 where w1: "sent w1 = sent w @ replicate k1 ?req"
  proof (cases "w1 = w")
    case True
    then have "sent w1 = sent w @ replicate 0 ?req" by simp
    then show ?thesis using that by blast
  next
    case False
    with GetRandomUint8_world [of c rb w] g have "sent w1 = sent w @ replicate 1 ?req" by auto
    then show ?thesis using that by blast
  qed
  have "snd (sample_loop (Suc fuel) c mn r rb msk w) = w1 \<or>
        snd (sample_loop (Suc fuel) c mn r rb msk w) = snd (sample_loop fuel c mn r rb msk w1)"
    using g by (cases res) (simp_all add: Let_def)
  then consider (stop) "snd (sample_loop (Suc fuel) c mn r rb msk w) = w1"
    | (go) "snd (sample_loop (Suc fuel) c mn r rb msk w) = snd (sample_loop fuel c mn r rb msk w1)"
    by blast
  then show ?case
  proof cases
    case stop
    with w1 show ?thesis by auto
  next
    case go
    from Suc.IH [of w1] obtain k where
      "sent (snd (sample_loop fuel c mn r rb msk w1)) = sent w1 @ replicate k ?req" by blast
    with w1 go have "sent (snd (sample_loop (Suc fuel) c mn r rb msk w)) =
        sent w @ replicate (k1 + k) ?req" by (simp add: replicate_add)
    then show ?thesis by blast
  qed
qed

lemma GetRandomNumber_requests:
  assumes "bitSize_loop 1 (mx - mn + 1) = Inr b"
  shows "set (new_requests w (snd (GetRandomNumber fuel c mn mx w)))
           \<subseteq> {build_request c (go_div (b + 7) 8) ''uint8'' 0}"
proof -
  let ?req = "build_request c (go_div (b + 7) 8) ''uint8'' 0"
  have "\<exists>k. sent (snd (GetRandomNumber fuel c mn mx w)) = sent w @ replicate k ?req"
  proof (cases "snd (GetRandomNumber fuel c mn mx w) = w")
    case True
    then have "sent (snd (GetRandomNumber fuel c mn mx w)) = sent w @ replicate 0 ?req" by simp
    then show ?thesis by blast
  next
    case False
    then have "snd (GetRandomNumber fuel c mn mx w) =
        snd (sample_loop fuel c mn (mx - mn + 1) (go_div (b + 7) 8) (shl1 b - 1) w)"
      using assms by (auto simp: GetRandomNumber_def Let_def split: if_splits)
    then show ?thesis using sample_loop_sent by simp
  qed
  then obtain k where "sent (snd (GetRandomNumber fuel c mn mx w)) = sent w @ replicate k ?req"
    by blast
  then show ?thesis by (auto simp: new_requests_def)
qed

subsection \<open>The bit width and the bytes per draw\<close>

text \<open>
  Claim C2, as the code has it. The width loop starts at \<open>bitSize := 1\<close>. For a range
  of size 1 (\<open>min = max\<close>) it returns the width 1, while \<open>2 ^ 0 \<ge> 1\<close>: the minimal
  width is 0.
\<close>

theorem bitSize_not_minimal_counterexample:
  "bitSize_loop 1 (5 - 5 + 1) = Inr 1 \<and> least_width_from 0 1 0 \<and>
   \<not> least_width_from 0 1 (nat (sint (1::go_int)))"
  by (simp add: bitSize_loop.simps shl1_def word_sless_alt least_width_from_def)

text \<open>
  Claim C2, amended. For \<open>min \<le> max\<close> and a range size \<open>max - min + 1\<close> of at most
  \<open>2 ^ 62\<close>, the loop returns the least width \<open>b \<ge> 1\<close> with \<open>2 ^ b \<ge> rangeSize\<close>; for a
  range size of at least 2 this is the minimal width. The number of bytes of a draw is
  \<open>\<lceil>b / 8\<rceil>\<close>, and every request \<open>GetRandomNumber\<close> makes asks for that many \<open>uint8\<close>
  values.
\<close>

theorem GetRandomNumber_width:
  assumes "sint mn \<le> sint mx" and "sint mx - sint mn + 1 \<le> 2 ^ 62"
  shows "\<exists>b. bitSize_loop 1 (mx - mn + 1) = Inr b \<and>
           least_width_from 1 (sint mx - sint mn + 1) (nat (sint b)) \<and>
           (2 \<le> sint mx - sint mn + 1 \<longrightarrow>
              least_width_from 0 (sint mx - sint mn + 1) (nat (sint b))) \<and>
           sint (go_div (b + 7) 8) = \<lceil>real_of_int (sint b) / 8\<rceil> \<and>
           (\<forall>fuel c w. set (new_requests w (snd (GetRandomNumber fuel c mn mx w)))
                          \<subseteq> {build_request c (go_div (b + 7) 8) ''uint8'' 0})"
proof -
  let ?r = "mx - mn + 1"
  let ?d = "sint mx - sint mn + 1"
  have "?d < 2 ^ 63" using assms(2) by simp
  with assms(1) have r: "sint ?r = ?d" by (rule sint_rangeSize)
  with assms(2) have "sint ?r \<le> 2 ^ 62" by simp
  from bitSize_loop_returns [OF this, of 1]
  obtain b where b: "bitSize_loop 1 ?r = Inr b" "1 \<le> sint b" "sint b \<le> 62"
    "sint ?r \<le> 2 ^ nat (sint b)"
    "\<forall>j. nat (sint (1::go_int)) \<le> j \<and> j < nat (sint b) \<longrightarrow> 2 ^ j < sint ?r"
    by auto
  have w1: "least_width_from 1 ?d (nat (sint b))"
    using b r by (auto simp: least_width_from_def)
  have w0: "2 \<le> ?d \<longrightarrow> least_width_from 0 ?d (nat (sint b))"
  proof
    assume two: "2 \<le> ?d"
    have "\<forall>j \<in> {0..<nat (sint b)}. 2 ^ j < ?d"
    proof
      fix j assume j: "j \<in> {0..<nat (sint b)}"
      show "2 ^ j < ?d"
      proof (cases "j = 0")
        case True
        with two show ?thesis by simp
      next
        case False
        with j w1 show ?thesis by (auto simp: least_width_from_def)
      qed
    qed
    with w1 show "least_width_from 0 ?d (nat (sint b))" by (simp add: least_width_from_def)
  qed
  have bytes: "sint (go_div (b + 7) 8) = \<lceil>real_of_int (sint b) / 8\<rceil>"
    by (rule trans [OF sint_requiredBytes [OF b(2,3)] ceiling_eighth [symmetric]])
  from b(1) w1 w0 bytes GetRandomNumber_requests [OF b(1)] show ?thesis by blast
qed

theorem GetRandomNumber_width_witness:
  "bitSize_loop 1 (255 - 0 + 1) = Inr 8 \<and> least_width_from 0 256 8 \<and>
   sint (go_div (8 + 7) 8) = 1 \<and>
   set (new_requests (answering (Response StatusOK (Json [] (envelope ''uint8'' [127]))))
         (snd (GetRandomNumber (Suc 0) NewClient 0 255
                 (answering (Response StatusOK (Json [] (envelope ''uint8'' [127])))))))
     = {build_request NewClient 1 ''uint8'' 0}"
proof -
  let ?w = "answering (Response StatusOK (Json [] (envelope ''uint8'' [127])))"
  from GetRandomNumber_width [where mn = 0 and mx = 255]
  obtain b where b: "bitSize_loop 1 (255 - 0 + 1) = Inr b"
    "2 \<le> sint (255::go_int) - sint (0::go_int) + 1 \<longrightarrow>
       least_width_from 0 (sint (255::go_int) - sint (0::go_int) + 1) (nat (sint b))"
    "sint (go_div (b + 7) 8) = \<lceil>real_of_int (sint b) / 8\<rceil>"
    by auto
  from b(1) have b8: "b = 8" by (simp add: bitSize_loop_256)
  from b(2) b8 have "least_width_from 0 256 8" by simp
  moreover from b(3) b8 have "sint (go_div (8 + 7) 8) = 1"
    by (simp add: ceiling_eighth)
  moreover have "set (new_requests ?w (snd (GetRandomNumber (Suc 0) NewClient 0 255 ?w)))
     = {build_request NewClient 1 ''uint8'' 0}"
    using GetRandomNumber_example by (simp add: new_requests_def answering_def)
  ultimately show ?thesis by (simp add: bitSize_loop_256)
qed

section \<open>Properties of the bit extraction\<close>

lemma shifted_bit:
  assumes "i < 8"
  shows "signed_drop_bit i (v::go_int) AND 1 = (if bit v i then 1 else 0)"
proof -
  have "bit (signed_drop_bit i v) 0 \<longleftrightarrow> bit v i"
    using assms by (simp add: bit_signed_drop_bit_iff)
  then have "odd (signed_drop_bit i v) \<longleftrightarrow> bit v i" by (simp add: bit_0)
  then show ?thesis by (simp add: and_one_eq mod_2_eq_odd)
qed

lemma shifted_bits:
  assumes "k \<le> 8"
  shows "map (\<lambda>i. signed_drop_bit i (v::go_int) AND 1) (rev [0..<k]) =
         map (\<lambda>i. if bit v i then 1 else 0) (rev [0..<k])"
  using assms by (intro map_cong) (simp_all add: shifted_bit)

lemma extractBits_inner_eq:
  assumes "1 \<le> sint numBits" and "length bits < nat (sint numBits)"
  shows "extractBits_inner v numBits k bits =
     (let new = map (\<lambda>i. signed_drop_bit i v AND 1) (rev [0..<k])
      in if nat (sint numBits) \<le> length bits + k
         then Return (take (nat (sint numBits)) (bits @ new))
         else Next (bits @ new))"
  using assms(2)
proof (induction k arbitrary: bits)
  case 0
  then show ?case by simp
next
  case (Suc k)
  let ?n = "nat (sint numBits)"
  let ?b = "signed_drop_bit k v AND 1"
  have eq: "int (length (bits @ [?b])) = sint numBits \<longleftrightarrow> Suc (length bits) = ?n"
    using assms(1) by auto
  show ?case
  proof (cases "Suc (length bits) = ?n")
    case True
    then have one: "nat (sint numBits) - length bits = Suc 0" by simp
    from True eq have "extractBits_inner v numBits (Suc k) bits = Return (bits @ [?b])"
      by (simp add: Let_def)
    moreover have "take ?n (bits @ ?b # map (\<lambda>i. signed_drop_bit i v AND 1) (rev [0..<k])) =
        bits @ [?b]"
      using Suc.prems one by simp
    ultimately show ?thesis using True by (simp add: Let_def)
  next
    case False
    with Suc.prems have lt: "length (bits @ [?b]) < ?n" by simp
    have "extractBits_inner v numBits (Suc k) bits = extractBits_inner v numBits k (bits @ [?b])"
      using False eq by (simp add: Let_def)
    also note Suc.IH [OF lt]
    finally show ?thesis using False by (simp add: Let_def)
  qed
qed

lemma extractBits_outer_eq:
  assumes "1 \<le> sint numBits" and "length bits < nat (sint numBits)"
  shows "extractBits_outer data numBits bits = take (nat (sint numBits)) (bits @ unpack data)"
  using assms(2)
proof (induction data arbitrary: bits)
  case Nil
  then show ?case by (simp add: unpack_def)
next
  case (Cons v data)
  let ?n = "nat (sint numBits)"
  let ?new = "map (\<lambda>i. signed_drop_bit i v AND 1) (rev [0..<8])"
  have new: "?new = msb_first v" unfolding msb_first_def by (rule shifted_bits) simp
  have len: "length ?new = 8" by simp
  have un: "unpack (v # data) = ?new @ unpack data" by (simp add: unpack_def new)
  show ?case
  proof (cases "?n \<le> length bits + 8")
    case True
    then have "extractBits_outer (v # data) numBits bits = take ?n (bits @ ?new)"
      using extractBits_inner_eq [OF assms(1) Cons.prems, of v 8] by (simp add: Let_def)
    also have "\<dots> = take ?n (bits @ ?new @ unpack data)"
      using True len by (simp del: upt.simps map_map rev.simps add: take_append)
    finally show ?thesis by (simp only: un)
  next
    case False
    then have lt: "length (bits @ ?new) < ?n" using len by simp
    from False have "extractBits_outer (v # data) numBits bits =
        extractBits_outer data numBits (bits @ ?new)"
      using extractBits_inner_eq [OF assms(1) Cons.prems, of v 8] by (simp add: Let_def)
    also have "\<dots> = take ?n ((bits @ ?new) @ unpack data)" by (rule Cons.IH [OF lt])
    finally show ?thesis by (simp only: un append_assoc)
  qed
qed

lemma extractBits_eq:
  assumes "1 \<le> sint numBits"
  shows "extractBits data numBits = take (nat (sint numBits)) (unpack data)"
  using extractBits_outer_eq [OF assms, of "[]" data] assms by (simp add: extractBits_def)

lemma length_unpack: "length (unpack data) = 8 * length data"
  by (induction data) (simp_all add: unpack_def msb_first_def)

lemma unpack_bits: "x \<in> set (unpack data) \<Longrightarrow> x = 0 \<or> x = 1"
  by (auto simp: unpack_def msb_first_def)

lemma sint_bytes_for_bits:
  assumes "1 \<le> sint (n::go_int)" and "sint n \<le> 8192"
  shows "sint (go_div (n + 7) 8) = (sint n + 7) div 8"
proof -
  have "sint (n + 7) = signed_take_bit 63 (sint n + 7)"
    by (simp add: sint_word_add)
  also have "\<dots> = sint n + 7"
    using assms by (intro signed_take_bit_int_eq_self) auto
  finally have n7: "sint (n + 7) = sint n + 7" .
  have "sint (go_div (n + 7) 8) = signed_take_bit 63 ((sint n + 7) div 8)"
    unfolding go_div_def using assms n7
    by (simp only: sint_sbintrunc') (simp add: signed_divide_int_def)
  also have "\<dots> = (sint n + 7) div 8"
    using assms by (intro signed_take_bit_int_eq_self) auto
  finally show ?thesis .
qed

text \<open>
  Claim C4. Let \<open>n\<close> be between 1 and 8192, let the client be usable, and let the
  transport answer the request with a successful envelope of at least \<open>\<lceil>n / 8\<rceil>\<close>
  integers. Then \<open>GetRandomBits(n)\<close> sends one request, for \<open>\<lceil>n / 8\<rceil>\<close> values of type
  \<open>uint8\<close>, and returns exactly \<open>n\<close> elements, each 0 or 1: the first \<open>n\<close> bits of the
  most-significant-bit-first unpacking of the returned values.
\<close>

theorem GetRandomBits_unpacks:
  assumes "1 \<le> sint n" and "sint n \<le> 8192"
    and "\<not> (requiresAPIKey c \<and> APIKey c = [])"
    and "NewRequest_err w (APIEndpoint c) (build_params (go_div (n + 7) 8) ''uint8'' 0) = None"
    and "upstream_reply c (go_div (n + 7) 8) ''uint8'' 0 w = Response StatusOK (Json raw qr)"
    and "Success qr"
    and "\<lceil>real_of_int (sint n) / 8\<rceil> \<le> int (length (Data qr))"
  shows "\<exists>bits. GetRandomBits c n w =
             (Inr bits, w\<lparr>sent := sent w @ [build_request c (go_div (n + 7) 8) ''uint8'' 0]\<rparr>) \<and>
           sint (go_div (n + 7) 8) = \<lceil>real_of_int (sint n) / 8\<rceil> \<and>
           length bits = nat (sint n) \<and>
           (\<forall>x \<in> set bits. x = 0 \<or> x = 1) \<and>
           bits = take (nat (sint n)) (unpack (Data qr))"
proof -
  let ?rb = "go_div (n + 7) 8"
  let ?bits = "take (nat (sint n)) (unpack (Data qr))"
  have rb: "sint ?rb = \<lceil>real_of_int (sint n) / 8\<rceil>"
    by (rule trans [OF sint_bytes_for_bits [OF assms(1,2)] ceiling_eighth [symmetric]])
  have enough: "sint ?rb \<le> int (length (Data qr))" using assms(7) by (simp only: rb)
  have dec: "decode_reply ?rb (Response StatusOK (Json raw qr)) = Inr qr"
    using assms(6) enough by (simp add: decode_reply_Inr)
  have guard: "\<not> (n <s 1 \<or> maxBits <s n)"
    using assms(1,2) by (simp add: word_sless_alt sint_maxBits)
  have run: "GetRandomBits c n w =
      (Inr (extractBits (Data qr) n), w\<lparr>sent := sent w @ [build_request c ?rb ''uint8'' 0]\<rparr>)"
    using guard assms(3,4,5) dec by (simp add: GetRandomBits_def Let_def doRequest_sends)
  have ex: "extractBits (Data qr) n = ?bits" using assms(1) by (rule extractBits_eq)
  have "(sint n + 7) div 8 \<le> int (length (Data qr))"
    using enough by (simp only: sint_bytes_for_bits [OF assms(1,2)])
  then have "sint n \<le> 8 * int (length (Data qr))" by linarith
  then have "nat (sint n) \<le> length (unpack (Data qr))" by (simp add: length_unpack)
  then have len: "length ?bits = nat (sint n)" by simp
  have bin: "\<forall>x \<in> set ?bits. x = 0 \<or> x = 1"
    using unpack_bits by (blast dest: in_set_takeD)
  from run ex rb len bin show ?thesis by simp
qed

theorem GetRandomBits_unpacks_witness:
  "fst (GetRandomBits NewClient 8
          (answering (Response StatusOK (Json [] (envelope ''uint8'' [255])))))
     = Inr [1, 1, 1, 1, 1, 1, 1, 1] \<and>
   fst (GetRandomBits NewClient 8
          (answering (Response StatusOK (Json [] (envelope ''uint8'' [0])))))
     = Inr [0, 0, 0, 0, 0, 0, 0, 0] \<and>
   fst (GetRandomBits NewClient 5
          (answering (Response StatusOK (Json [] (envelope ''uint8'' [127])))))
     = Inr [0, 1, 1, 1, 1]"
proof -
  have rb: "go_div (8 + 7) 8 = (1::go_int)" "go_div (5 + 7) 8 = (1::go_int)"
    by (simp_all add: go_div_def signed_divide_int_def)
  have u: "take 8 (unpack [255]) = [1, 1, 1, 1, 1, 1, 1, 1]"
    "take 8 (unpack [0]) = [0, 0, 0, 0, 0, 0, 0, 0]"
    "take 5 (unpack [127]) = [0, 1, 1, 1, 1]"
    by (simp_all add: unpack_def msb_first_def upt_rec bit_numeral_rec)
  from GetRandomBits_unpacks [where n = 8 and c = NewClient and raw = "[]"
      and qr = "envelope ''uint8'' [255]"
      and w = "answering (Response StatusOK (Json [] (envelope ''uint8'' [255])))"]
  have a: "fst (GetRandomBits NewClient 8
          (answering (Response StatusOK (Json [] (envelope ''uint8'' [255])))))
     = Inr (take 8 (unpack [255]))"
    by (auto simp: rb NewClient_def requiresAPIKey_def answering_def upstream_reply_def envelope_def)
  from GetRandomBits_unpacks [where n = 8 and c = NewClient and raw = "[]"
      and qr = "envelope ''uint8'' [0]"
      and w = "answering (Response StatusOK (Json [] (envelope ''uint8'' [0])))"]
  have b: "fst (GetRandomBits NewClient 8
          (answering (Response StatusOK (Json [] (envelope ''uint8'' [0])))))
     = Inr (take 8 (unpack [0]))"
    by (auto simp: rb NewClient_def requiresAPIKey_def answering_def upstream_reply_def envelope_def)
  from GetRandomBits_unpacks [where n = 5 and c = NewClient and raw = "[]"
      and qr = "envelope ''uint8'' [127]"
      and w = "answering (Response StatusOK (Json [] (envelope ''uint8'' [127])))"]
  have c: "fst (GetRandomBits NewClient 5
          (answering (Response StatusOK (Json [] (envelope ''uint8'' [127])))))
     = Inr (take 5 (unpack [127]))"
    by (auto simp: rb NewClient_def requiresAPIKey_def answering_def upstream_reply_def envelope_def)
  from a b c u show ?thesis by simp
qed

section \<open>Properties of the hexadecimal formatting\<close>

lemma digits_of_small: "n < 16 \<Longrightarrow> digits_of 16 n = [digit_char n]"
  by (simp add: digits_of.simps)

lemma digits_of_large:
  "16 \<le> n \<Longrightarrow> digits_of 16 n = digits_of 16 (n div 16) @ [digit_char (n mod 16)]"
  by (subst digits_of.simps) simp

lemma length_digits_pos: "0 < length (digits_of 16 n)"
  by (cases "n < 16") (simp_all add: digits_of_small digits_of_large)

lemma length_digits_le: "n < 16 ^ w \<Longrightarrow> 1 \<le> w \<Longrightarrow> length (digits_of 16 n) \<le> w"
proof (induction n arbitrary: w rule: less_induct)
  case (less n)
  show ?case
  proof (cases "n < 16")
    case True
    with less.prems show ?thesis by (simp add: digits_of_small)
  next
    case False
    then have big: "16 \<le> n" by simp
    from less.prems obtain w' where w: "w = Suc w'" by (cases w) simp_all
    have "w' \<noteq> 0"
    proof
      assume "w' = 0"
      with w less.prems big show False by simp
    qed
    then have w1: "1 \<le> w'" by simp
    from less.prems(1) w have "n div 16 < 16 ^ w'"
      by (simp add: less_mult_imp_div_less mult.commute)
    moreover have "n div 16 < n" using big by simp
    ultimately have "length (digits_of 16 (n div 16)) \<le> w'" using w1 by (intro less.IH)
    with big w show ?thesis by (simp add: digits_of_large)
  qed
qed

lemma length_digits_gt: "16 ^ w \<le> n \<Longrightarrow> w < length (digits_of 16 n)"
proof (induction n arbitrary: w rule: less_induct)
  case (less n)
  show ?case
  proof (cases w)
    case 0
    with length_digits_pos [of n] show ?thesis by simp
  next
    case (Suc w')
    with less.prems have p: "16 * 16 ^ w' \<le> n" by simp
    have "(16::nat) \<le> 16 * 16 ^ w'" by simp
    with p have big: "16 \<le> n" by linarith
    from p have "16 ^ w' \<le> n div 16" by (simp add: less_eq_div_iff_mult_less_eq mult.commute)
    moreover have "n div 16 < n" using big by simp
    ultimately have "w' < length (digits_of 16 (n div 16))" by (intro less.IH)
    with big Suc show ?thesis by (simp add: digits_of_large)
  qed
qed

lemma digit_char_hex: "d < 16 \<Longrightarrow> digit_char d \<in> set ''0123456789abcdef''"
  unfolding digit_char_def by (rule nth_mem) simp

lemma digits_hex: "set (digits_of 16 n) \<subseteq> set ''0123456789abcdef''"
proof (induction n rule: less_induct)
  case (less n)
  show ?case
  proof (cases "n < 16")
    case True
    then show ?thesis using digit_char_hex [of n] by (simp add: digits_of_small)
  next
    case False
    then have big: "16 \<le> n" by simp
    then have "n div 16 < n" by simp
    then have "set (digits_of 16 (n div 16)) \<subseteq> set ''0123456789abcdef''" by (rule less.IH)
    moreover have "digit_char (n mod 16) \<in> set ''0123456789abcdef''"
      by (rule digit_char_hex) simp
    ultimately show ?thesis using big by (simp add: digits_of_large)
  qed
qed

lemma hex_digit_value_digit_char: "d < 16 \<Longrightarrow> hex_digit_value (digit_char d) = d"
proof -
  have "\<forall>d \<in> set [0..<16]. hex_digit_value (digit_char d) = d"
    by (simp add: upt_rec digit_char_def hex_digit_value_def)
  then show "d < 16 \<Longrightarrow> hex_digit_value (digit_char d) = d" by simp
qed

lemma hex_value_snoc: "hex_value (s @ [ch]) = 16 * hex_value s + hex_digit_value ch"
  by (simp add: hex_value_def)

lemma hex_value_digits: "hex_value (digits_of 16 n) = n"
proof (induction n rule: less_induct)
  case (less n)
  show ?case
  proof (cases "n < 16")
    case True
    then show ?thesis by (simp add: digits_of_small hex_value_def hex_digit_value_digit_char)
  next
    case False
    then have big: "16 \<le> n" by simp
    then have "n div 16 < n" by simp
    then have "hex_value (digits_of 16 (n div 16)) = n div 16" by (rule less.IH)
    then show ?thesis using big
      by (simp add: digits_of_large hex_value_snoc hex_digit_value_digit_char)
  qed
qed

lemma hex_value_zeros: "hex_value (replicate k CHR ''0'' @ s) = hex_value s"
proof -
  have z: "hex_digit_value CHR ''0'' = 0" by (simp add: hex_digit_value_def)
  have "foldl (\<lambda>a ch. 16 * a + hex_digit_value ch) 0 (replicate k CHR ''0'') = 0"
    by (induction k) (simp_all add: z)
  then show ?thesis by (simp add: hex_value_def)
qed

lemma length_zero_pad: "length (zero_pad w s) = max w (length s)"
  by (simp add: zero_pad_def)

lemma Sprintf_0x_min_width: "w \<le> length (Sprintf_0x w v)"
  by (auto simp: Sprintf_0x_def length_zero_pad max_def)

lemma Sprintf_0x_nonneg:
  assumes "0 \<le> sint v" and "1 \<le> w"
  shows "set (Sprintf_0x w v) \<subseteq> set ''0123456789abcdef''"
    and "hex_value (Sprintf_0x w v) = nat (sint v)"
    and "length (Sprintf_0x w v) = w \<longleftrightarrow> sint v < 16 ^ w"
proof -
  let ?m = "nat (sint v)"
  have f: "Sprintf_0x w v = zero_pad w (digits_of 16 ?m)"
    using assms(1) by (simp add: Sprintf_0x_def word_sless_alt)
  have "set (replicate (w - length (digits_of 16 ?m)) CHR ''0'') \<subseteq> set ''0123456789abcdef''"
    by (cases "w - length (digits_of 16 ?m) = 0") simp_all
  with digits_hex [of ?m] show "set (Sprintf_0x w v) \<subseteq> set ''0123456789abcdef''"
    unfolding f zero_pad_def set_append by blast
  show "hex_value (Sprintf_0x w v) = nat (sint v)"
    by (simp add: f zero_pad_def hex_value_zeros hex_value_digits)
  have iff: "sint v < 16 ^ w \<longleftrightarrow> ?m < 16 ^ w"
    using assms(1) by (simp add: nat_less_iff)
  show "length (Sprintf_0x w v) = w \<longleftrightarrow> sint v < 16 ^ w"
  proof (cases "?m < 16 ^ w")
    case True
    then have "length (digits_of 16 ?m) \<le> w" using assms(2) by (rule length_digits_le)
    then have "length (Sprintf_0x w v) = w" by (simp add: f length_zero_pad)
    moreover from True iff have "sint v < 16 ^ w" by blast
    ultimately show ?thesis by blast
  next
    case False
    then have "w < length (digits_of 16 ?m)" by (intro length_digits_gt) simp
    then have "length (Sprintf_0x w v) \<noteq> w" by (simp add: f length_zero_pad)
    moreover from False iff have "\<not> sint v < 16 ^ w" by blast
    ultimately show ?thesis by blast
  qed
qed

lemma formatHex_width:
  assumes "1 \<le> sint blockSize" and "sint blockSize \<le> 10"
  shows "formatHex data hexType blockSize = map (Sprintf_0x (hex_width hexType blockSize)) data"
    and "1 \<le> hex_width hexType blockSize"
proof -
  have "sint (blockSize * 2) = signed_take_bit 63 (sint blockSize * 2)"
    by (simp add: sint_word_mult)
  also have "\<dots> = sint blockSize * 2"
    using assms by (intro signed_take_bit_int_eq_self) auto
  finally have "nat (sint (blockSize * 2)) = 2 * nat (sint blockSize)" using assms by simp
  then show "formatHex data hexType blockSize = map (Sprintf_0x (hex_width hexType blockSize)) data"
    by (simp add: formatHex_def hex_width_def Let_def)
  show "1 \<le> hex_width hexType blockSize" using assms by (simp add: hex_width_def Suc_le_eq)
qed

text \<open>
  Claim C5, as the code has it. The width of the format is a minimum. With the upstream
  integer 65536 the \<open>hex16\<close> string is \<open>10000\<close>, five digits and not four; with the
  upstream integer 256 and block size 1 the \<open>hex8\<close> string is \<open>100\<close>, three digits and
  not two.
\<close>

theorem GetRandomHex_overlong_counterexample:
  "fst (GetRandomHex NewClient 1 4 ''hex16''
          (answering (Response StatusOK (Json [] (envelope ''hex16'' [65536])))))
     = Inr [''10000''] \<and>
   fst (GetRandomHex NewClient 1 1 ''hex8''
          (answering (Response StatusOK (Json [] (envelope ''hex8'' [256])))))
     = Inr [''100'']"
  by (simp add: GetRandomHex_def word_sless_alt doRequest_sends NewClient_def requiresAPIKey_def
        answering_def upstream_reply_def decode_reply_def envelope_def formatHex_def
        Sprintf_0x_def zero_pad_def digits_of.simps digit_char_def)

text \<open>
  Claim C5, amended. Whenever \<open>GetRandomHex\<close> succeeds, its result has one string for
  each integer of the upstream data, and each string has at least \<open>width\<close> characters,
  where \<open>width\<close> is \<open>2 * blockSize\<close> for \<open>hex8\<close> and 4 for \<open>hex16\<close>. For a non-negative
  integer the string consists of lowercase hexadecimal digits, it stands for the integer,
  and it has exactly \<open>width\<close> digits if and only if the integer is below \<open>16 ^ width\<close>.
  \<open>GetRandomHex(2, 4, "hex16")\<close> with the upstream data \<open>[32767, 65535]\<close> returns
  \<open>["7fff", "ffff"]\<close>, as evaluated after the theorem.
\<close>

theorem GetRandomHex_formats:
  assumes "GetRandomHex c n blockSize hexType w = (Inr ss, w')"
  shows "\<exists>raw qr. upstream_reply c n hexType blockSize w = Response StatusOK (Json raw qr) \<and>
           length ss = length (Data qr) \<and>
           (\<forall>i < length ss.
              hex_width hexType blockSize \<le> length (ss ! i) \<and>
              (0 \<le> sint (Data qr ! i) \<longrightarrow>
                 set (ss ! i) \<subseteq> set ''0123456789abcdef'' \<and>
                 hex_value (ss ! i) = nat (sint (Data qr ! i)) \<and>
                 (length (ss ! i) = hex_width hexType blockSize \<longleftrightarrow>
                    sint (Data qr ! i) < 16 ^ hex_width hexType blockSize)))"
proof -
  from GetRandomHex_Inr [OF assms] obtain qr where
    q: "doRequest c n hexType blockSize w = (Inr qr, w')"
      "ss = formatHex (Data qr) hexType blockSize"
      "1 \<le> sint blockSize" "sint blockSize \<le> 10" by blast
  from doRequest_Inr [OF q(1)] obtain raw where
    up: "upstream_reply c n hexType blockSize w = Response StatusOK (Json raw qr)" by blast
  let ?w = "hex_width hexType blockSize"
  from formatHex_width [OF q(3,4)] q(2) have
    ss: "ss = map (Sprintf_0x ?w) (Data qr)" and w1: "1 \<le> ?w" by simp_all
  have "\<forall>i < length ss.
      ?w \<le> length (ss ! i) \<and>
      (0 \<le> sint (Data qr ! i) \<longrightarrow>
         set (ss ! i) \<subseteq> set ''0123456789abcdef'' \<and>
         hex_value (ss ! i) = nat (sint (Data qr ! i)) \<and>
         (length (ss ! i) = ?w \<longleftrightarrow> sint (Data qr ! i) < 16 ^ ?w))"
  proof (intro allI impI conjI)
    fix i assume i: "i < length ss"
    then have e: "ss ! i = Sprintf_0x ?w (Data qr ! i)" by (simp add: ss)
    show "?w \<le> length (ss ! i)" unfolding e by (rule Sprintf_0x_min_width)
    assume nn: "0 \<le> sint (Data qr ! i)"
    show "set (ss ! i) \<subseteq> set ''0123456789abcdef''"
      unfolding e using nn w1 by (rule Sprintf_0x_nonneg)
    show "hex_value (ss ! i) = nat (sint (Data qr ! i))"
      unfolding e using nn w1 by (rule Sprintf_0x_nonneg)
    show "length (ss ! i) = ?w \<longleftrightarrow> sint (Data qr ! i) < 16 ^ ?w"
      unfolding e using nn w1 by (rule Sprintf_0x_nonneg)
  qed
  moreover have "length ss = length (Data qr)" by (simp add: ss)
  ultimately show ?thesis using up by blast
qed

lemma GetRandomHex_example:
  "GetRandomHex (NewClientWithAPIKey ''---'') 2 4 ''hex16''
     (answering (Response StatusOK (Json [] (envelope ''hex16'' [32767, 65535]))))
   = (Inr [''7fff'', ''ffff''],
      (answering (Response StatusOK (Json [] (envelope ''hex16'' [32767, 65535]))))
        \<lparr>sent := [build_request (NewClientWithAPIKey ''---'') 2 ''hex16'' 4]\<rparr>)"
  by (simp add: GetRandomHex_def word_sless_alt doRequest_sends NewClientWithAPIKey_def
        requiresAPIKey_def answering_def upstream_reply_def decode_reply_def envelope_def
        formatHex_def Sprintf_0x_def zero_pad_def digits_of.simps digit_char_def)

theorem GetRandomHex_formats_witness:
  "fst (GetRandomHex (NewClientWithAPIKey ''---'') 2 4 ''hex16''
          (answering (Response StatusOK (Json [] (envelope ''hex16'' [32767, 65535])))))
     = Inr [''7fff'', ''ffff''] \<and>
   (\<exists>raw qr.
      upstream_reply (NewClientWithAPIKey ''---'') 2 ''hex16'' 4
        (answering (Response StatusOK (Json [] (envelope ''hex16'' [32767, 65535]))))
        = Response StatusOK (Json raw qr) \<and>
      length [''7fff'', ''ffff''] = length (Data qr) \<and>
      (\<forall>i < length [''7fff'', ''ffff''].
         hex_width ''hex16'' 4 \<le> length ([''7fff'', ''ffff''] ! i) \<and>
         (0 \<le> sint (Data qr ! i) \<longrightarrow>
            set ([''7fff'', ''ffff''] ! i) \<subseteq> set ''0123456789abcdef'' \<and>
            hex_value ([''7fff'', ''ffff''] ! i) = nat (sint (Data qr ! i)) \<and>
            (length ([''7fff'', ''ffff''] ! i) = hex_width ''hex16'' 4 \<longleftrightarrow>
               sint (Data qr ! i) < 16 ^ hex_width ''hex16'' 4))))"
proof (rule conjI)
  show "fst (GetRandomHex (NewClientWithAPIKey ''---'') 2 4 ''hex16''
          (answering (Response StatusOK (Json [] (envelope ''hex16'' [32767, 65535])))))
     = Inr [''7fff'', ''ffff'']"
    by (simp only: GetRandomHex_example fst_conv)
qed (rule GetRandomHex_formats [OF GetRandomHex_example])

section \<open>Length of the results\<close>

text \<open>
  Claim C10. Let the client be usable and let the transport answer the request with a
  successful envelope holding at least the requested number of integers, possibly more.
  Then \<open>GetRandomUint8\<close> and \<open>GetRandomUint16\<close> (for a count between 1 and 1024) and
  \<open>GetRandomHex\<close> (for a recognised type and a block size between 1 and 10) succeed
  after one request, and the result has one element for each integer of the envelope,
  in order: its length is the length of the upstream data and not the requested count,
  so every extra item is included.
\<close>

theorem results_keep_all_upstream_items:
  assumes "\<not> (requiresAPIKey c \<and> APIKey c = [])"
    and "Success qr" and "sint n \<le> int (length (Data qr))"
  shows "(1 \<le> sint n \<and> sint n \<le> 1024 \<and>
          NewRequest_err w (APIEndpoint c) (build_params n ''uint8'' 0) = None \<and>
          upstream_reply c n ''uint8'' 0 w = Response StatusOK (Json raw qr) \<longrightarrow>
            (\<exists>bs. GetRandomUint8 c n w =
                    (Inr bs, w\<lparr>sent := sent w @ [build_request c n ''uint8'' 0]\<rparr>) \<and>
                  length bs = length (Data qr) \<and>
                  (\<forall>i < length bs. bs ! i = ucast (Data qr ! i)))) \<and>
         (1 \<le> sint n \<and> sint n \<le> 1024 \<and>
          NewRequest_err w (APIEndpoint c) (build_params n ''uint16'' 0) = None \<and>
          upstream_reply c n ''uint16'' 0 w = Response StatusOK (Json raw qr) \<longrightarrow>
            (\<exists>ws. GetRandomUint16 c n w =
                    (Inr ws, w\<lparr>sent := sent w @ [build_request c n ''uint16'' 0]\<rparr>) \<and>
                  length ws = length (Data qr) \<and>
                  (\<forall>i < length ws. ws ! i = ucast (Data qr ! i)))) \<and>
         ((hexType = ''hex8'' \<or> hexType = ''hex16'') \<and>
          1 \<le> sint blockSize \<and> sint blockSize \<le> 10 \<and>
          NewRequest_err w (APIEndpoint c) (build_params n hexType blockSize) = None \<and>
          upstream_reply c n hexType blockSize w = Response StatusOK (Json raw qr) \<longrightarrow>
            (\<exists>ss. GetRandomHex c n blockSize hexType w =
                    (Inr ss, w\<lparr>sent := sent w @ [build_request c n hexType blockSize]\<rparr>) \<and>
                  length ss = length (Data qr) \<and>
                  (\<forall>i < length ss.
                     ss ! i = Sprintf_0x (hex_width hexType blockSize) (Data qr ! i))))"
proof -
  have dec: "decode_reply n (Response StatusOK (Json raw qr)) = Inr qr"
    using assms(2,3) by (simp add: decode_reply_Inr)
  show ?thesis
  proof (intro conjI impI)
    assume h: "1 \<le> sint n \<and> sint n \<le> 1024 \<and>
          NewRequest_err w (APIEndpoint c) (build_params n ''uint8'' 0) = None \<and>
          upstream_reply c n ''uint8'' 0 w = Response StatusOK (Json raw qr)"
    then have guard: "\<not> (n <s 1 \<or> maxUint8Length <s n)"
      by (simp add: word_sless_alt maxUint8Length_def)
    have "GetRandomUint8 c n w =
        (Inr (convertUint8 (Data qr)), w\<lparr>sent := sent w @ [build_request c n ''uint8'' 0]\<rparr>)"
      using h assms(1) guard dec by (simp add: GetRandomUint8_def doRequest_sends)
    then show "\<exists>bs. GetRandomUint8 c n w =
                    (Inr bs, w\<lparr>sent := sent w @ [build_request c n ''uint8'' 0]\<rparr>) \<and>
                  length bs = length (Data qr) \<and>
                  (\<forall>i < length bs. bs ! i = ucast (Data qr ! i))"
      by (simp add: convertUint8_def)
  next
    assume h: "1 \<le> sint n \<and> sint n \<le> 1024 \<and>
          NewRequest_err w (APIEndpoint c) (build_params n ''uint16'' 0) = None \<and>
          upstream_reply c n ''uint16'' 0 w = Response StatusOK (Json raw qr)"
    then have guard: "\<not> (n <s 1 \<or> maxUint16Length <s n)"
      by (simp add: word_sless_alt maxUint16Length_def)
    have "GetRandomUint16 c n w =
        (Inr (convertUint16 (Data qr)), w\<lparr>sent := sent w @ [build_request c n ''uint16'' 0]\<rparr>)"
      using h assms(1) guard dec by (simp add: GetRandomUint16_def doRequest_sends)
    then show "\<exists>ws. GetRandomUint16 c n w =
                    (Inr ws, w\<lparr>sent := sent w @ [build_request c n ''uint16'' 0]\<rparr>) \<and>
                  length ws = length (Data qr) \<and>
                  (\<forall>i < length ws. ws ! i = ucast (Data qr ! i))"
      by (simp add: convertUint16_def)
  next
    assume h: "(hexType = ''hex8'' \<or> hexType = ''hex16'') \<and>
          1 \<le> sint blockSize \<and> sint blockSize \<le> 10 \<and>
          NewRequest_err w (APIEndpoint c) (build_params n hexType blockSize) = None \<and>
          upstream_reply c n hexType blockSize w = Response StatusOK (Json raw qr)"
    then have ty: "\<not> (hexType \<noteq> ''hex8'' \<and> hexType \<noteq> ''hex16'')"
      and guard: "\<not> (blockSize <s 1 \<or> 10 <s blockSize)"
      and b: "1 \<le> sint blockSize" "sint blockSize \<le> 10"
      by (simp_all add: word_sless_alt)
    have "GetRandomHex c n blockSize hexType w =
        (Inr (formatHex (Data qr) hexType blockSize),
         w\<lparr>sent := sent w @ [build_request c n hexType blockSize]\<rparr>)"
      using h assms(1) ty guard dec by (simp add: GetRandomHex_def doRequest_sends)
    then show "\<exists>ss. GetRandomHex c n blockSize hexType w =
                    (Inr ss, w\<lparr>sent := sent w @ [build_request c n hexType blockSize]\<rparr>) \<and>
                  length ss = length (Data qr) \<and>
                  (\<forall>i < length ss.
                     ss ! i = Sprintf_0x (hex_width hexType blockSize) (Data qr ! i))"
      by (simp add: formatHex_width [OF b])
  qed
qed

theorem results_keep_all_upstream_items_witness:
  "(\<exists>bs. fst (GetRandomUint8 NewClient 2
                 (answering (Response StatusOK (Json [] (envelope ''uint8'' [1, 2, 3])))))
            = Inr bs \<and> length bs = 3) \<and>
   (\<exists>ws. fst (GetRandomUint16 NewClient 2
                 (answering (Response StatusOK (Json [] (envelope ''uint8'' [1, 2, 3])))))
            = Inr ws \<and> length ws = 3) \<and>
   (\<exists>ss. fst (GetRandomHex NewClient 2 4 ''hex16''
                 (answering (Response StatusOK (Json [] (envelope ''uint8'' [1, 2, 3])))))
            = Inr ss \<and> length ss = 3)"
proof -
  let ?qr = "envelope ''uint8'' [1, 2, 3]"
  let ?w = "answering (Response StatusOK (Json [] ?qr))"
  have pre: "\<not> (requiresAPIKey NewClient \<and> APIKey NewClient = [])" "Success ?qr"
    "sint (2::go_int) \<le> int (length (Data ?qr))"
    by (simp_all add: NewClient_def requiresAPIKey_def envelope_def)
  note all = results_keep_all_upstream_items [OF pre, where w = ?w and raw = "[]"
      and hexType = "''hex16''" and blockSize = 4]
  have up: "upstream_reply NewClient 2 ty bs ?w = Response StatusOK (Json [] ?qr)" for ty bs
    by (simp add: upstream_reply_def answering_def)
  have nr: "NewRequest_err ?w e p = None" for e p by (simp add: answering_def)
  have len: "length (Data ?qr) = 3" by (simp add: envelope_def)
  from all [THEN conjunct1] up nr
  obtain bs where "GetRandomUint8 NewClient 2 ?w =
      (Inr bs, ?w\<lparr>sent := sent ?w @ [build_request NewClient 2 ''uint8'' 0]\<rparr>)"
    "length bs = length (Data ?qr)" by auto
  then have a: "\<exists>bs. fst (GetRandomUint8 NewClient 2 ?w) = Inr bs \<and> length bs = 3"
    using len by simp
  from all [THEN conjunct2, THEN conjunct1] up nr
  obtain ws where "GetRandomUint16 NewClient 2 ?w =
      (Inr ws, ?w\<lparr>sent := sent ?w @ [build_request NewClient 2 ''uint16'' 0]\<rparr>)"
    "length ws = length (Data ?qr)" by auto
  then have b: "\<exists>ws. fst (GetRandomUint16 NewClient 2 ?w) = Inr ws \<and> length ws = 3"
    using len by simp
  from all [THEN conjunct2, THEN conjunct2] up nr
  obtain ss where "GetRandomHex NewClient 2 4 ''hex16'' ?w =
      (Inr ss, ?w\<lparr>sent := sent ?w @ [build_request NewClient 2 ''hex16'' 4]\<rparr>)"
    "length ss = length (Data ?qr)" by auto
  then have c: "\<exists>ss. fst (GetRandomHex NewClient 2 4 ''hex16'' ?w) = Inr ss \<and> length ss = 3"
    using len by simp
  from a b c show ?thesis by blast
qed

end
